theory Spec2Isabelle
  imports Main "HOL-Library.Sublist" "HOL-Library.Multiset"
begin

section \<open>Errors\<close>

text \<open>
  A Go \<open>error\<close> is \<open>nil\<close> or a value; a result of type \<open>error\<close> is an
  \<open>error option\<close>, \<open>None\<close> for \<open>nil\<close>.

  The blocker builds and inspects errors with \<open>gitlab.com/NebulousLabs/errors\<close>. An
  error of that library is either a plain error (one message) or a set of errors, listed
  newest first. Each component carries its message and whether it is the value
  \<open>database.ErrNoDocumentsFound\<close>, the only error the blocker compares by identity.
\<close>

type_synonym err_component = "string \<times> bool"

datatype error = Plain err_component | ErrSet "err_component list"

definition New :: "string \<Rightarrow> error" where
  "New s = Plain (s, False)"

fun components :: "error \<Rightarrow> err_component list" where
  "components (Plain c) = [c]"
| "components (ErrSet cs) = cs"

text \<open>The messages of a set are joined with \<open>; \<close>.\<close>

fun join_msgs :: "string list \<Rightarrow> string" where
  "join_msgs [] = []"
| "join_msgs [m] = m"
| "join_msgs (m # ms) = m @ ''; '' @ join_msgs ms"

text \<open>\<open>err.Error()\<close>: a plain error prints its message, a set prints \<open>[m1; m2; ...]\<close>.\<close>

fun Error_msg :: "error \<Rightarrow> string" where
  "Error_msg (Plain c) = fst c"
| "Error_msg (ErrSet cs) = ''['' @ join_msgs (map fst cs) @ '']''"

text \<open>
  \<open>errors.AddContext(err, s)\<close> puts a new plain error with message \<open>s\<close> in front of
  the components of \<open>err\<close>; on \<open>nil\<close> it is \<open>nil\<close>.
\<close>

definition AddContext :: "error \<Rightarrow> string \<Rightarrow> error" where
  "AddContext err s = ErrSet ((s, False) # components err)"

definition AddContext_opt :: "error option \<Rightarrow> string \<Rightarrow> error option" where
  "AddContext_opt err s = map_option (\<lambda>e. AddContext e s) err"

text \<open>\<open>errors.Contains(err, database.ErrNoDocumentsFound)\<close>; false on \<open>nil\<close>.\<close>

definition Contains_ErrNoDocumentsFound :: "error option \<Rightarrow> bool" where
  "Contains_ErrNoDocumentsFound err =
     (case err of None \<Rightarrow> False | Some e \<Rightarrow> list_ex snd (components e))"

text \<open>\<open>strings.Contains(s, substr)\<close>.\<close>

fun strings_Contains :: "string \<Rightarrow> string \<Rightarrow> bool" where
  "strings_Contains [] substr = (substr = [])"
| "strings_Contains (c # s) substr = (prefix substr (c # s) \<or> strings_Contains s substr)"

definition no_entries_updated :: string where
  "no_entries_updated = ''no entries updated''"

text \<open>
  The test \<open>err != nil && !strings.Contains(err.Error(), "no entries updated")\<close> that
  \<open>SweepAndBlock\<close> applies to the result of a submission and of a checkpoint write.
\<close>

definition is_fatal :: "error option \<Rightarrow> bool" where
  "is_fatal err =
     (case err of None \<Rightarrow> False
      | Some e \<Rightarrow> \<not> strings_Contains (Error_msg e) no_entries_updated)"

section \<open>Durations and the scheduler of \<open>Start\<close>\<close>

text \<open>
  \<open>time.Duration\<close> is a count of nanoseconds in an \<open>int64\<close>. The scheduler multiplies
  the base step by a counter that never exceeds 6 (shown below), so the largest value it
  computes is 60 seconds and nothing wraps; durations are modelled as \<open>int\<close>.
\<close>

type_synonym Duration = int

definition Millisecond :: Duration where "Millisecond = 1000000"
definition Second :: Duration where "Second = 1000 * Millisecond"
definition Minute :: Duration where "Minute = 60 * Second"

text \<open>\<open>build.Select\<close> picks one of three values by the release the binary is built for.\<close>

datatype release = Dev | Testing | Standard

fun sleepBetweenScans :: "release \<Rightarrow> Duration" where
  "sleepBetweenScans Dev = 10 * Second"
| "sleepBetweenScans Testing = 100 * Millisecond"
| "sleepBetweenScans Standard = Minute"

definition sleepOnErrStep :: Duration where
  "sleepOnErrStep = 10 * Second"

definition sleepOnErrSteps :: int where
  "sleepOnErrSteps = 6"

text \<open>The two variables of the goroutine started by \<open>Start\<close>.\<close>

record sched =
  sleepLength :: Duration
  numSubsequentErrs :: int

text \<open>\<open>var sleepLength time.Duration; numSubsequentErrs := 0\<close>\<close>

definition sched_init :: sched where
  "sched_init = \<lparr>sleepLength = 0, numSubsequentErrs = 0\<rparr>"

text \<open>
  The body of the loop after \<open>err := bl.SweepAndBlock()\<close>: the three branches on
  \<open>err\<close>, in the order of the source. The two \<open>Debugf\<close> calls change no variable.
\<close>

definition sched_step :: "release \<Rightarrow> error option \<Rightarrow> sched \<Rightarrow> sched" where
  "sched_step rel err st =
     (if Contains_ErrNoDocumentsFound err then
        st\<lparr>sleepLength := sleepBetweenScans rel, numSubsequentErrs := 0\<rparr>
      else if err \<noteq> None then
        (let n = numSubsequentErrs st + 1;
             n' = (if n > sleepOnErrSteps then sleepOnErrSteps else n)
         in st\<lparr>numSubsequentErrs := n', sleepLength := sleepOnErrStep * n'\<rparr>)
      else
        st\<lparr>numSubsequentErrs := 0, sleepLength := sleepBetweenScans rel\<rparr>)"

text \<open>
  The loop runs until the context is cancelled; the state after any number of iterations
  is the fold of the body over the results of the sweeps made so far.
\<close>

fun sched_run :: "release \<Rightarrow> error option list \<Rightarrow> sched \<Rightarrow> sched" where
  "sched_run rel [] st = st"
| "sched_run rel (err # errs) st = sched_run rel errs (sched_step rel err st)"

text \<open>The sweeps that take the error branch of the loop body.\<close>

definition is_error_sweep :: "error option \<Rightarrow> bool" where
  "is_error_sweep err = (err \<noteq> None \<and> \<not> Contains_ErrNoDocumentsFound err)"

section \<open>The collaborators and the state of the process\<close>

text \<open>
  \<open>database.BlockedSkylink\<close>: the sweep reads two of its fields. \<open>time.Time\<close> is an
  instant, here the integer distance from the zero value of the type, so that
  \<open>time.Time{}\<close> is \<open>0\<close>, \<open>After\<close> is \<open>>\<close> and \<open>Before\<close> is \<open><\<close>.
\<close>

type_synonym Time = int

record BlockedSkylink =
  Skylink :: string
  TimestampAdded :: Time

text \<open>The calls the blocker makes through \<open>os\<close> and \<open>os.File\<close>, as they are traced.\<close>

datatype os_call = Mkdir | OpenFile | WriteString string | Sync | Close | Remove

text \<open>What the blocker hands to its logger, one constructor for each call site.\<close>

datatype log_event =
    Trace_WillBlockAll "BlockedSkylink list"
  | Trace_WillBlockChunk "BlockedSkylink list"
  | Warn_EmptySkylink BlockedSkylink
  | Trace_FailedToBlock error
  | Trace_FailedToUpdateTimestamp error
  | Warn_CachePurger error
  | Warn_FailedToAcquireLock
  | Error_FailedToReleaseLock error
  | Warn_SyncClose "error option" "error option"

text \<open>
  The world the blocker runs in. The first five fields are the environment: what the
  store returns as pending, how skyd answers a submission (given the submissions made
  before it), how the store answers a checkpoint write (given the writes made before
  it), whether the context is done at the n-th poll, and how the operating system answers
  the n-th call (\<open>None\<close>: success; \<open>Some (e, k)\<close>: error \<open>e\<close>, after \<open>k\<close> bytes when
  the call is a write). No operation of the blocker changes them. The other fields are
  the state the blocker acts on: the submissions skyd received, the checkpoint writes
  attempted, the checkpoint stored, the polls and system calls made, whether the lock
  directory exists, the content of the list file (\<open>None\<close>: no such file), and the log.
\<close>

record world =
  db_SkylinksToBlock :: "BlockedSkylink list \<times> error option"
  skyd_answer :: "string list list \<Rightarrow> string list \<Rightarrow> error option"
  db_answer :: "Time list \<Rightarrow> Time \<Rightarrow> error option"
  ctx_done :: "nat \<Rightarrow> bool"
  os_answer :: "nat \<Rightarrow> (error \<times> nat) option"
  requests :: "string list list"
  ts_writes :: "Time list"
  checkpoint :: Time
  polls :: nat
  os_calls :: nat
  os_trace :: "os_call list"
  lock_dir :: bool
  list_file :: "string option"
  logs :: "log_event list"

definition log :: "log_event \<Rightarrow> world \<Rightarrow> world" where
  "log ev w = w\<lparr>logs := logs w @ [ev]\<rparr>"

text \<open>\<open>bl.staticSkydAPI.BlockSkylinks(sls)\<close>\<close>

definition skyd_BlockSkylinks :: "string list \<Rightarrow> world \<Rightarrow> world \<times> error option" where
  "skyd_BlockSkylinks sls w =
     (w\<lparr>requests := requests w @ [sls]\<rparr>, skyd_answer w (requests w) sls)"

text \<open>
  \<open>bl.staticDB.SetLatestBlockTimestamp(t)\<close>: the store keeps \<open>t\<close> when the write
  succeeds and what it had when the write fails.
\<close>

definition SetLatestBlockTimestamp :: "Time \<Rightarrow> world \<Rightarrow> world \<times> error option" where
  "SetLatestBlockTimestamp t w =
     (let r = db_answer w (ts_writes w) t
      in (w\<lparr>ts_writes := ts_writes w @ [t],
            checkpoint := (if r = None then t else checkpoint w)\<rparr>, r))"

text \<open>The non-blocking \<open>select\<close> on \<open>bl.staticCtx.Done()\<close>.\<close>

definition ctx_poll :: "world \<Rightarrow> world \<times> bool" where
  "ctx_poll w = (w\<lparr>polls := Suc (polls w)\<rparr>, ctx_done w (polls w))"

section \<open>The lock and the list file: \<open>writeToNginxCachePurger\<close>\<close>

definition os_do :: "os_call \<Rightarrow> world \<Rightarrow> world \<times> (error \<times> nat) option" where
  "os_do c w =
     (w\<lparr>os_calls := Suc (os_calls w), os_trace := os_trace w @ [c]\<rparr>, os_answer w (os_calls w))"

text \<open>\<open>os.Mkdir(bl.staticNginxCachePurgeLockPath, 0700)\<close>\<close>

definition os_Mkdir :: "world \<Rightarrow> world \<times> error option" where
  "os_Mkdir w =
     (case os_do Mkdir w of
        (w1, None) \<Rightarrow> (w1\<lparr>lock_dir := True\<rparr>, None)
      | (w1, Some (e, k)) \<Rightarrow> (w1, Some e))"

text \<open>\<open>os.Remove(bl.staticNginxCachePurgeLockPath)\<close>\<close>

definition os_Remove :: "world \<Rightarrow> world \<times> error option" where
  "os_Remove w =
     (case os_do Remove w of
        (w1, None) \<Rightarrow> (w1\<lparr>lock_dir := False\<rparr>, None)
      | (w1, Some (e, k)) \<Rightarrow> (w1, Some e))"

text \<open>
  \<open>os.OpenFile(path, os.O_RDWR|os.O_CREATE, 0644)\<close>: creates the file, empty, when there
  is none, and leaves an existing file as it is. The flags hold neither \<open>O_APPEND\<close> nor
  \<open>O_TRUNC\<close>, so the file offset of the new handle is 0.
\<close>

definition os_OpenFile :: "world \<Rightarrow> world \<times> error option" where
  "os_OpenFile w =
     (case os_do OpenFile w of
        (w1, None) \<Rightarrow>
          (w1\<lparr>list_file := Some (case list_file w1 of None \<Rightarrow> [] | Some c \<Rightarrow> c)\<rparr>, None)
      | (w1, Some (e, k)) \<Rightarrow> (w1, Some e))"

text \<open>
  Writing \<open>data\<close> at offset \<open>off\<close> of a file with content \<open>c\<close> replaces the bytes
  there and extends the file when the data reaches beyond its end.
\<close>

definition pwrite :: "string \<Rightarrow> nat \<Rightarrow> string \<Rightarrow> string" where
  "pwrite c off data =
     take off c @ replicate (off - length c) (CHR 0x00) @ data @ drop (off + length data) c"

text \<open>
  \<open>f.WriteString(data)\<close> on a handle at offset \<open>off\<close>: returns the new offset and the
  error. A failing write may have written a part of the data.
\<close>

definition f_WriteString :: "string \<Rightarrow> nat \<Rightarrow> world \<Rightarrow> world \<times> nat \<times> error option" where
  "f_WriteString data off w =
     (case os_do (WriteString data) w of
        (w1, r) \<Rightarrow>
          (let n = (case r of None \<Rightarrow> length data | Some (e, k) \<Rightarrow> min k (length data))
           in (w1\<lparr>list_file := map_option (\<lambda>c. pwrite c off (take n data)) (list_file w1)\<rparr>,
               off + n, map_option fst r)))"

definition newline :: char where
  "newline = CHR 0x0A"

text \<open>\<open>for _, s := range sls { _, err = f.WriteString(s + "\n"); if err != nil { return err } }\<close>\<close>

fun write_all :: "string list \<Rightarrow> nat \<Rightarrow> world \<Rightarrow> world \<times> error option" where
  "write_all [] off w = (w, None)"
| "write_all (s # sls) off w =
     (case f_WriteString (s @ [newline]) off w of
        (w1, off1, Some e) \<Rightarrow> (w1, Some e)
      | (w1, off1, None) \<Rightarrow> write_all sls off1 w1)"

text \<open>The deferred \<open>f.Sync(); f.Close()\<close>, whose errors are logged only.\<close>

definition sync_close :: "world \<Rightarrow> world" where
  "sync_close w =
     (case os_do Sync w of
        (w1, r1) \<Rightarrow>
          (case os_do Close w1 of
             (w2, r2) \<Rightarrow>
               (if r1 \<noteq> None \<or> r2 \<noteq> None
                then log (Warn_SyncClose (map_option fst r1) (map_option fst r2)) w2
                else w2)))"

text \<open>The deferred release of the lock, whose error is logged only.\<close>

definition release_lock :: "world \<Rightarrow> world" where
  "release_lock w =
     (case os_Remove w of
        (w1, Some e) \<Rightarrow> log (Error_FailedToReleaseLock e) w1
      | (w1, None) \<Rightarrow> w1)"

text \<open>
  The acquisition loop: at most \<open>n\<close> more attempts; \<open>lockErr\<close> is the result of the
  last attempt made. After a failed attempt the code warns and sleeps one second, which
  changes nothing in the world but the time.
\<close>

fun acquire_loop :: "nat \<Rightarrow> error option \<Rightarrow> world \<Rightarrow> world \<times> error option" where
  "acquire_loop 0 lockErr w = (w, lockErr)"
| "acquire_loop (Suc n) lockErr w =
     (case os_Mkdir w of
        (w1, None) \<Rightarrow> (w1, None)
      | (w1, Some e) \<Rightarrow> acquire_loop n (Some e) (log Warn_FailedToAcquireLock w1))"

definition acquire_lock :: "world \<Rightarrow> world \<times> error option" where
  "acquire_lock w = acquire_loop 3 None w"

text \<open>
  \<open>writeToNginxCachePurger\<close>. The deferred functions run last registered first: sync
  and close (registered once the file is open), then the release of the lock.
\<close>

definition writeToNginxCachePurger :: "string list \<Rightarrow> world \<Rightarrow> world \<times> error option" where
  "writeToNginxCachePurger sls w =
     (case acquire_lock w of
        (w1, Some e) \<Rightarrow> (w1, Some (AddContext e ''failed to acquire nginx lock''))
      | (w1, None) \<Rightarrow>
          (case os_OpenFile w1 of
             (w2, Some e) \<Rightarrow> (release_lock w2, Some e)
           | (w2, None) \<Rightarrow>
               (case write_all sls 0 w2 of
                  (w3, r) \<Rightarrow> (release_lock (sync_close w3), r))))"

section \<open>\<open>blockSkylinks\<close> and \<open>SweepAndBlock\<close>\<close>

definition blockSkylinks :: "string list \<Rightarrow> world \<Rightarrow> world \<times> error option" where
  "blockSkylinks sls w =
     (case writeToNginxCachePurger sls w of
        (w1, err) \<Rightarrow>
          (let w2 = (case err of Some e \<Rightarrow> log (Warn_CachePurger e) w1 | None \<Rightarrow> w1)
           in case skyd_BlockSkylinks sls w2 of
                (w3, err') \<Rightarrow> (w3, AddContext_opt err' ''block skylinks failed'')))"

definition skylinksChunk :: nat where
  "skylinksChunk = 100"

text \<open>
  The inner loop over one chunk, with the variables \<open>block\<close> and \<open>latestTimestamp\<close>.
  The result is \<open>None\<close> when the context is done, where \<open>SweepAndBlock\<close> returns
  \<open>nil\<close> at once.
\<close>

fun collect :: "BlockedSkylink list \<Rightarrow> string list \<Rightarrow> Time \<Rightarrow> world
                \<Rightarrow> world \<times> (string list \<times> Time) option" where
  "collect [] block latestTimestamp w = (w, Some (block, latestTimestamp))"
| "collect (sl # chunk) block latestTimestamp w =
     (case ctx_poll w of
        (w1, True) \<Rightarrow> (w1, None)
      | (w1, False) \<Rightarrow>
          (if Skylink sl = []
           then collect chunk block latestTimestamp (log (Warn_EmptySkylink sl) w1)
           else collect chunk (block @ [Skylink sl])
                  (if TimestampAdded sl > latestTimestamp then TimestampAdded sl
                   else latestTimestamp) w1))"

text \<open>
  The loop over the chunks, on the part of the sorted list from \<open>idx\<close> on: the chunk is
  its first \<open>skylinksChunk\<close> items, and the loop goes on with the rest. The result is
  \<open>Some r\<close> when \<open>SweepAndBlock\<close> returns \<open>r\<close> from inside the loop, and \<open>None\<close>
  when the loop ends.
\<close>

function for_chunks :: "BlockedSkylink list \<Rightarrow> world \<Rightarrow> world \<times> error option option" where
  "for_chunks xs w =
     (if xs = [] then (w, None)
      else
        (let chunk = take skylinksChunk xs
         in case collect chunk [] 0 (log (Trace_WillBlockChunk chunk) w) of
              (w1, None) \<Rightarrow> (w1, Some None)
            | (w1, Some (block, latestTimestamp)) \<Rightarrow>
                (case blockSkylinks block w1 of
                   (w2, err) \<Rightarrow>
                     (if is_fatal err then
                        (let err' = AddContext_opt err ''failed to block skylinks list''
                         in (case err' of
                               None \<Rightarrow> (w2, Some None)
                             | Some e \<Rightarrow> (log (Trace_FailedToBlock e) w2, Some err'))) 
                      else
                        (case SetLatestBlockTimestamp latestTimestamp w2 of
                           (w3, err2) \<Rightarrow>
                             (if is_fatal err2 then
                                (case err2 of
                                   None \<Rightarrow> (w3, Some None)
                                 | Some e \<Rightarrow>
                                     (log (Trace_FailedToUpdateTimestamp e) w3, Some err2))
                              else for_chunks (drop skylinksChunk xs) w3))))))"
  by pat_completeness auto
termination
  by (relation "measure (\<lambda>(xs, w). length xs)") (auto simp: skylinksChunk_def)

declare for_chunks.simps [simp del]

text \<open>
  \<open>SweepAndBlock\<close>. \<open>srt\<close> is what \<open>sort.Slice\<close> with the comparison by
  \<open>TimestampAdded\<close> does to the list (Go does not say in which order it leaves items of
  equal time), and \<open>now\<close> is what \<open>time.Now().UTC()\<close> returns where the sweep calls it
  (once on every path).
\<close>

definition SweepAndBlock ::
  "(BlockedSkylink list \<Rightarrow> BlockedSkylink list) \<Rightarrow> Time \<Rightarrow> world \<Rightarrow> world \<times> error option" where
  "SweepAndBlock srt now w =
     (case db_SkylinksToBlock w of
        (skylinksToBlock, err) \<Rightarrow>
          (if Contains_ErrNoDocumentsFound err then SetLatestBlockTimestamp now w
           else if err \<noteq> None then (w, err)
           else
             (case for_chunks (srt skylinksToBlock) (log (Trace_WillBlockAll skylinksToBlock) w) of
                (w1, Some r) \<Rightarrow> (w1, r)
              | (w1, None) \<Rightarrow>
                  (case SetLatestBlockTimestamp now w1 of
                     (w2, err2) \<Rightarrow>
                       (if is_fatal err2 then
                          (case err2 of
                             None \<Rightarrow> (w2, None)
                           | Some e \<Rightarrow> (log (Trace_FailedToUpdateTimestamp e) w2, err2))
                        else (w2, None))))))"

text \<open>What \<open>sort.Slice\<close> guarantees: the same items, in ascending order of time.\<close>

definition sorts_by_time :: "(BlockedSkylink list \<Rightarrow> BlockedSkylink list) \<Rightarrow> bool" where
  "sorts_by_time srt =
     (\<forall>xs. mset (srt xs) = mset xs \<and> sorted (map TimestampAdded (srt xs)))"

section \<open>The dispatcher as the specification describes it\<close>

text \<open>
  Section 4.1 of the specification, in its own words, to compare the code with: submit
  the batch; if it is accepted all its items are blocked and the newest of their times is
  the candidate; if it is rejected and holds one item that item has failed; otherwise
  split it (floor, ceiling) and dispatch the halves in order. The result is the blocked
  count, the failed count, the newest time among the accepted items if there is one, and
  the submissions made, in order. \<open>accepts\<close> is the answer of the Blocking Authority.
\<close>

fun newest :: "Time option \<Rightarrow> Time option \<Rightarrow> Time option" where
  "newest None b = b"
| "newest (Some a) None = Some a"
| "newest (Some a) (Some b) = Some (max a b)"

function spec_bisect ::
  "(string list \<Rightarrow> bool) \<Rightarrow> BlockedSkylink list
     \<Rightarrow> nat \<times> nat \<times> Time option \<times> string list list" where
  "spec_bisect accepts batch =
     (if batch = [] then (0, 0, None, [])
      else if accepts (map Skylink batch) then
        (length batch, 0, fold (\<lambda>i t. newest t (Some (TimestampAdded i))) batch None,
         [map Skylink batch])
      else if length batch = 1 then (0, 1, None, [map Skylink batch])
      else
        (let h = length batch div 2
         in case spec_bisect accepts (take h batch) of
              (b1, f1, t1, r1) \<Rightarrow>
                (case spec_bisect accepts (drop h batch) of
                   (b2, f2, t2, r2) \<Rightarrow>
                     (b1 + b2, f1 + f2, newest t1 t2, map Skylink batch # r1 @ r2))))"
  by pat_completeness auto
termination
proof (relation "measure (\<lambda>(accepts, batch). length batch)", goal_cases)
  case 1
  show ?case by simp
next
  case (2 accepts batch h)
  then have "2 \<le> length batch" by (cases batch) (auto simp: Suc_le_eq)
  with 2 show ?case by simp
next
  case (3 accepts batch h)
  then have "2 \<le> length batch" by (cases batch) (auto simp: Suc_le_eq)
  with 3 show ?case by simp
qed

declare spec_bisect.simps [simp del]

definition spec_Dispatch ::
  "(string list \<Rightarrow> bool) \<Rightarrow> BlockedSkylink list
     \<Rightarrow> nat \<times> nat \<times> Time option \<times> string list list" where
  "spec_Dispatch accepts items = spec_bisect accepts (filter (\<lambda>i. Skylink i \<noteq> []) items)"

section \<open>Worlds to run the code in\<close>

text \<open>
  A world where nothing has happened yet, nothing is pending, nothing fails and the
  context is never done; the examples below change the fields they are about.
\<close>

definition calm :: world where
  "calm = \<lparr>db_SkylinksToBlock = ([], None), skyd_answer = (\<lambda>h b. None),
           db_answer = (\<lambda>h t. None), ctx_done = (\<lambda>n. False), os_answer = (\<lambda>n. None),
           requests = [], ts_writes = [], checkpoint = 0, polls = 0, os_calls = 0,
           os_trace = [], lock_dir = False, list_file = None, logs = []\<rparr>"

definition item :: "string \<Rightarrow> Time \<Rightarrow> BlockedSkylink" where
  "item s t = \<lparr>Skylink = s, TimestampAdded = t\<rparr>"

text \<open>
  An authority that rejects every batch holding the identifier \<open>throwerror\<close>, as
  \<open>mockSkyd\<close> of the tests does.
\<close>

definition rejects_throwerror :: "string list list \<Rightarrow> string list \<Rightarrow> error option" where
  "rejects_throwerror h b =
     (if ''throwerror'' \<in> set b then Some (New ''unable to update blocklist'') else None)"

text \<open>
  \<open>database.ErrNoDocumentsFound\<close>, the error the store returns when nothing is pending.
  The sweep and the scheduler look for it by identity; its message is written in package
  \<open>database\<close> and nothing here depends on it.
\<close>

definition ErrNoDocumentsFound :: error where
  "ErrNoDocumentsFound = Plain (''no documents found'', True)"

text \<open>The calm world with the given records pending, and with nothing pending.\<close>

definition pending :: "BlockedSkylink list \<Rightarrow> world" where
  "pending xs = calm\<lparr>db_SkylinksToBlock := (xs, None)\<rparr>"

definition nothing_pending :: world where
  "nothing_pending = calm\<lparr>db_SkylinksToBlock := ([], Some ErrNoDocumentsFound)\<rparr>"

text \<open>The same world with a store that answers every checkpoint write with the error \<open>e\<close>.\<close>

definition store_fails :: "error \<Rightarrow> world \<Rightarrow> world" where
  "store_fails e w = w\<lparr>db_answer := (\<lambda>h t. Some e)\<rparr>"

text \<open>The same world with the authority of the tests' mock.\<close>

definition mock_skyd :: "world \<Rightarrow> world" where
  "mock_skyd w = w\<lparr>skyd_answer := rejects_throwerror\<rparr>"

text \<open>
  The same world with an authority that is out of reach at its \<open>n\<close>-th request, counted
  from 0, whatever the batch, and accepts every other request.
\<close>

definition outage_at :: "nat \<Rightarrow> world \<Rightarrow> world" where
  "outage_at n w =
     w\<lparr>skyd_answer := (\<lambda>h b. if length h = n then Some (New ''skyd unreachable'') else None)\<rparr>"


text \<open>\<open>n\<close> records with the skylink \<open>skylink\<close>, added at the times 1 to \<open>n\<close>.\<close>

definition many :: "nat \<Rightarrow> BlockedSkylink list" where
  "many n = map (\<lambda>k. item ''skylink'' (int k)) [1..<Suc n]"

text \<open>Pending records among which one is rejected by the mock authority.\<close>

definition four :: "BlockedSkylink list" where
  "four = [item ''skylink_0'' 1, item ''skylink_1'' 2, item ''throwerror'' 3, item ''skylink_2'' 4]"

definition three :: "BlockedSkylink list" where
  "three = [item ''skylink_0'' 1, item ''skylink_1'' 2, item ''throwerror'' 3]"


section \<open>Parts of the world, for the frame of each operation\<close>

text \<open>The environment, which no operation changes.\<close>

definition env ::
  "world \<Rightarrow> (BlockedSkylink list \<times> error option) \<times> (string list list \<Rightarrow> string list \<Rightarrow> error option)
     \<times> (Time list \<Rightarrow> Time \<Rightarrow> error option) \<times> (nat \<Rightarrow> bool) \<times> (nat \<Rightarrow> (error \<times> nat) option)" where
  "env w = (db_SkylinksToBlock w, skyd_answer w, db_answer w, ctx_done w, os_answer w)"

text \<open>The records the log warns about for their empty skylink, in the order of the warnings.\<close>

fun empty_warnings :: "log_event list \<Rightarrow> BlockedSkylink list" where
  "empty_warnings [] = []"
| "empty_warnings (Warn_EmptySkylink sl # evs) = sl # empty_warnings evs"
| "empty_warnings (ev # evs) = empty_warnings evs"

definition warned :: "world \<Rightarrow> BlockedSkylink list" where
  "warned w = empty_warnings (logs w)"

text \<open>
  What the lock and the list file are no part of: skyd, the store, the context and the
  warnings about empty skylinks.
\<close>

definition beyond_fs ::
  "world \<Rightarrow> string list list \<times> Time list \<times> Time \<times> nat \<times> BlockedSkylink list" where
  "beyond_fs w = (requests w, ts_writes w, checkpoint w, polls w, warned w)"

text \<open>The variable \<open>latestTimestamp\<close> after the inner loop has run through a chunk.\<close>

definition latest_of :: "BlockedSkylink list \<Rightarrow> Time" where
  "latest_of chunk =
     fold (\<lambda>sl t. if TimestampAdded sl > t then TimestampAdded sl else t)
       (filter (\<lambda>sl. Skylink sl \<noteq> []) chunk) 0"

text \<open>The slice \<open>block\<close> after the inner loop has run through a chunk.\<close>

definition block_of :: "BlockedSkylink list \<Rightarrow> string list" where
  "block_of chunk = map Skylink (filter (\<lambda>sl. Skylink sl \<noteq> []) chunk)"

text \<open>
  The chunk of the \<open>j\<close>-th turn of the loop over the chunks, \<open>skylinksToBlock[idx:end]\<close>
  with \<open>idx = j * skylinksChunk\<close>; and, when the first \<open>j\<close> turns ran through, the
  batches they submitted and the checkpoints they wrote, in order.
\<close>

definition chunk_at :: "nat \<Rightarrow> BlockedSkylink list \<Rightarrow> BlockedSkylink list" where
  "chunk_at j xs = take skylinksChunk (drop (j * skylinksChunk) xs)"

definition submitted_before :: "nat \<Rightarrow> BlockedSkylink list \<Rightarrow> string list list" where
  "submitted_before j xs = map (\<lambda>i. block_of (chunk_at i xs)) [0..<j]"

definition written_before :: "nat \<Rightarrow> BlockedSkylink list \<Rightarrow> Time list" where
  "written_before j xs = map (\<lambda>i. latest_of (chunk_at i xs)) [0..<j]"

section \<open>The scheduler\<close>


lemma sched_run_append:
  "sched_run rel (a @ b) st = sched_run rel b (sched_run rel a st)"
  by (induction a arbitrary: st) auto

lemma sched_step_counter_bounds:
  "0 \<le> numSubsequentErrs st \<Longrightarrow> numSubsequentErrs st \<le> sleepOnErrSteps \<Longrightarrow>
   0 \<le> numSubsequentErrs (sched_step rel err st) \<and>
   numSubsequentErrs (sched_step rel err st) \<le> sleepOnErrSteps"
  by (simp add: sched_step_def sleepOnErrSteps_def Let_def)

lemma sched_run_counter_bounds:
  "0 \<le> numSubsequentErrs st \<Longrightarrow> numSubsequentErrs st \<le> sleepOnErrSteps \<Longrightarrow>
   0 \<le> numSubsequentErrs (sched_run rel errs st) \<and>
   numSubsequentErrs (sched_run rel errs st) \<le> sleepOnErrSteps"
proof (induction errs arbitrary: st)
  case Nil
  then show ?case by simp
next
  case (Cons err errs)
  from sched_step_counter_bounds [OF Cons.prems, of rel err]
  show ?case using Cons.IH [of "sched_step rel err st"] by simp
qed

lemma sched_step_not_error:
  "\<not> is_error_sweep err \<Longrightarrow> numSubsequentErrs (sched_step rel err st) = 0"
  by (auto simp: sched_step_def is_error_sweep_def)

lemma sched_step_error:
  "is_error_sweep err \<Longrightarrow>
   numSubsequentErrs (sched_step rel err st) = min (numSubsequentErrs st + 1) sleepOnErrSteps \<and>
   sleepLength (sched_step rel err st) = sleepOnErrStep * min (numSubsequentErrs st + 1) sleepOnErrSteps"
  by (auto simp: sched_step_def is_error_sweep_def Let_def min_def)

lemma sched_run_errors_counter:
  "\<forall>r \<in> set errs. is_error_sweep r \<Longrightarrow>
   numSubsequentErrs (sched_run rel errs st) =
     min (numSubsequentErrs st + int (length errs)) (if errs = [] then numSubsequentErrs st else sleepOnErrSteps)"
proof (induction errs arbitrary: st)
  case Nil
  then show ?case by simp
next
  case (Cons err errs)
  then have e: "is_error_sweep err" and es: "\<forall>r \<in> set errs. is_error_sweep r" by auto
  show ?case
    using Cons.IH [OF es, of "sched_step rel err st"] sched_step_error [OF e, of rel st]
    by (auto simp: min_def)
qed

lemma sched_run_errors_sleep:
  "\<forall>r \<in> set errs. is_error_sweep r \<Longrightarrow> errs \<noteq> [] \<Longrightarrow>
   sleepLength (sched_run rel errs st) = sleepOnErrStep * numSubsequentErrs (sched_run rel errs st)"
proof (induction errs arbitrary: st)
  case Nil
  then show ?case by simp
next
  case (Cons err errs)
  then have e: "is_error_sweep err" and es: "\<forall>r \<in> set errs. is_error_sweep r" by auto
  show ?case
  proof (cases "errs = []")
    case True
    then show ?thesis using sched_step_error [OF e, of rel st] by simp
  next
    case False
    then show ?thesis using Cons.IH [OF es False, of "sched_step rel err st"] by simp
  qed
qed

lemma sched_run_snoc:
  "sched_run rel (pre @ [r]) st = sched_step rel r (sched_run rel pre st)"
  by (simp add: sched_run_append)

lemma counter_zero_before_streak:
  "pre = [] \<or> \<not> is_error_sweep (last pre) \<Longrightarrow> numSubsequentErrs (sched_run rel pre sched_init) = 0"
proof (cases pre rule: rev_cases)
  case Nil
  then show ?thesis by (simp add: sched_init_def)
next
  case (snoc ys y)
  assume "pre = [] \<or> \<not> is_error_sweep (last pre)"
  with snoc have "\<not> is_error_sweep y" by simp
  with snoc show ?thesis by (simp add: sched_run_snoc sched_step_not_error)
qed



text \<open>
  Claim C6. In every run of the scheduler loop the consecutive-error counter stays at
  most 6 (\<open>sleepOnErrSteps\<close>); and after N consecutive erroring sweeps (N at least 1,
  the streak starting at the start of the loop or after a sweep that was not an error) the
  counter is min(N, 6) and the idle interval is the base step of 10 seconds times
  min(N, 6), hence at most 60 seconds.
\<close>
theorem backoff_linear_capped:
  "numSubsequentErrs (sched_run rel results sched_init) \<le> sleepOnErrSteps \<and>
   ((pre = [] \<or> \<not> is_error_sweep (last pre)) \<and> errs \<noteq> [] \<and> (\<forall>r \<in> set errs. is_error_sweep r) \<longrightarrow>
      numSubsequentErrs (sched_run rel (pre @ errs) sched_init) = min (int (length errs)) 6 \<and>
      sleepLength (sched_run rel (pre @ errs) sched_init) = 10 * Second * min (int (length errs)) 6 \<and>
      sleepLength (sched_run rel (pre @ errs) sched_init) \<le> 60 * Second)"
proof (intro conjI impI)
  show "numSubsequentErrs (sched_run rel results sched_init) \<le> sleepOnErrSteps"
    using sched_run_counter_bounds [of sched_init rel results]
    by (simp add: sched_init_def sleepOnErrSteps_def)
next
  assume a: "(pre = [] \<or> \<not> is_error_sweep (last pre)) \<and> errs \<noteq> [] \<and> (\<forall>r \<in> set errs. is_error_sweep r)"
  let ?st = "sched_run rel pre sched_init"
  from a have z: "numSubsequentErrs ?st = 0" by (simp add: counter_zero_before_streak)
  from a have n: "numSubsequentErrs (sched_run rel errs ?st) = min (int (length errs)) 6"
    using sched_run_errors_counter [of errs rel ?st] z by (simp add: sleepOnErrSteps_def)
  from a have s: "sleepLength (sched_run rel errs ?st) = sleepOnErrStep * numSubsequentErrs (sched_run rel errs ?st)"
    using sched_run_errors_sleep [of errs rel ?st] by simp
  show "numSubsequentErrs (sched_run rel (pre @ errs) sched_init) = min (int (length errs)) 6"
    using n by (simp add: sched_run_append)
  show "sleepLength (sched_run rel (pre @ errs) sched_init) = 10 * Second * min (int (length errs)) 6"
    using n s by (simp add: sched_run_append sleepOnErrStep_def)
  show "sleepLength (sched_run rel (pre @ errs) sched_init) \<le> 60 * Second"
    using n s by (simp add: sched_run_append sleepOnErrStep_def Second_def Millisecond_def min_def)
qed

theorem backoff_linear_capped_witness:
  "is_error_sweep (Some (New ''store unreachable'')) \<and>
   \<not> is_error_sweep (last [None]) \<and>
   numSubsequentErrs
     (sched_run Standard ([None] @ replicate 8 (Some (New ''store unreachable''))) sched_init) = 6 \<and>
   sleepLength
     (sched_run Standard ([None] @ replicate 8 (Some (New ''store unreachable''))) sched_init) = 60 * Second"
proof -
  have h: "\<forall>r \<in> set (replicate 8 (Some (New ''store unreachable''))). is_error_sweep r"
    by (simp add: is_error_sweep_def Contains_ErrNoDocumentsFound_def New_def)
  have p: "\<not> is_error_sweep (last [None])"
    by (simp add: is_error_sweep_def)
  have ne: "replicate 8 (Some (New ''store unreachable'')) \<noteq> []"
    by simp
  have e: "is_error_sweep (Some (New ''store unreachable''))"
    by (simp add: is_error_sweep_def Contains_ErrNoDocumentsFound_def New_def)
  from backoff_linear_capped [of Standard "[]" "[None]" "replicate 8 (Some (New ''store unreachable''))"] h p ne e
  show ?thesis by simp
qed

section \<open>The lock and the list file\<close>


lemma os_do_eq:
  "os_do c w = (w\<lparr>os_calls := Suc (os_calls w), os_trace := os_trace w @ [c]\<rparr>, os_answer w (os_calls w))"
  by (simp add: os_do_def)




lemma release_lock_answer: "os_answer (release_lock w) = os_answer w"
  by (simp add: release_lock_def os_Remove_def os_do_eq log_def split: option.splits prod.splits)















text \<open>
  Claim C4. The list file is opened without \<open>O_APPEND\<close>, so the hand-off writes its
  lines from offset 0 over what the file holds: on a file holding \<open>abcdefgh\<close> the
  hand-off of \<open>xy\<close> leaves \<open>xy\<close>, a newline and \<open>defgh\<close>, not the old content
  followed by the new line.
\<close>

theorem handoff_overwrites_from_start:
  "list_file (fst (writeToNginxCachePurger [''xy''] (calm\<lparr>list_file := Some ''abcdefgh''\<rparr>)))
     = Some (''xy'' @ [newline] @ ''defgh'')"
  by (simp add: writeToNginxCachePurger_def acquire_lock_def numeral_3_eq_3 os_Mkdir_def os_do_eq
      calm_def os_OpenFile_def f_WriteString_def pwrite_def sync_close_def release_lock_def os_Remove_def)

section \<open>What the hand-off and \<open>blockSkylinks\<close> leave alone\<close>


lemma empty_warnings_append:
  "empty_warnings (evs @ evs') = empty_warnings evs @ empty_warnings evs'"
  by (induction evs rule: empty_warnings.induct) simp_all

lemma warned_log:
  "warned (log ev w) =
     (case ev of Warn_EmptySkylink sl \<Rightarrow> warned w @ [sl] | _ \<Rightarrow> warned w)"
  by (cases ev) (simp_all add: warned_def log_def empty_warnings_append)

lemma warned_updates:
  "warned (w\<lparr>os_calls := a\<rparr>) = warned w"
  "warned (w\<lparr>os_trace := b\<rparr>) = warned w"
  "warned (w\<lparr>lock_dir := c\<rparr>) = warned w"
  "warned (w\<lparr>list_file := d\<rparr>) = warned w"
  "warned (w\<lparr>requests := e\<rparr>) = warned w"
  "warned (w\<lparr>ts_writes := f\<rparr>) = warned w"
  "warned (w\<lparr>checkpoint := g\<rparr>) = warned w"
  "warned (w\<lparr>polls := h\<rparr>) = warned w"
  by (simp_all add: warned_def)

lemma os_do_frame: "env (fst (os_do c w)) = env w \<and> beyond_fs (fst (os_do c w)) = beyond_fs w"
  by (simp add: os_do_def env_def beyond_fs_def warned_def)

lemma os_Mkdir_frame: "env (fst (os_Mkdir w)) = env w \<and> beyond_fs (fst (os_Mkdir w)) = beyond_fs w"
  by (simp add: os_Mkdir_def os_do_eq env_def beyond_fs_def warned_def empty_warnings_append split: option.splits prod.splits)

lemma os_OpenFile_frame:
  "env (fst (os_OpenFile w)) = env w \<and> beyond_fs (fst (os_OpenFile w)) = beyond_fs w"
  by (simp add: os_OpenFile_def os_do_eq env_def beyond_fs_def warned_def empty_warnings_append split: option.splits prod.splits)

lemma f_WriteString_frame:
  "env (fst (f_WriteString data off w)) = env w \<and>
   beyond_fs (fst (f_WriteString data off w)) = beyond_fs w"
  by (simp add: f_WriteString_def os_do_eq env_def beyond_fs_def warned_def empty_warnings_append Let_def split: option.splits prod.splits)

lemma log_frame:
  "env (log ev w) = env w \<and> requests (log ev w) = requests w \<and>
   ts_writes (log ev w) = ts_writes w \<and> checkpoint (log ev w) = checkpoint w \<and>
   polls (log ev w) = polls w"
  by (simp add: log_def env_def)

lemma release_lock_frame:
  "env (release_lock w) = env w \<and> beyond_fs (release_lock w) = beyond_fs w"
  by (simp add: release_lock_def os_Remove_def os_do_eq log_def env_def beyond_fs_def
      warned_def empty_warnings_append split: option.splits prod.splits)

lemma sync_close_frame:
  "env (sync_close w) = env w \<and> beyond_fs (sync_close w) = beyond_fs w"
  by (simp add: sync_close_def os_do_eq log_def env_def beyond_fs_def warned_def
      empty_warnings_append)

lemma write_all_frame:
  "env (fst (write_all sls off w)) = env w \<and> beyond_fs (fst (write_all sls off w)) = beyond_fs w"
proof (induction sls arbitrary: off w)
  case Nil
  show ?case by simp
next
  case (Cons s sls)
  obtain w2 off2 r2 where f: "f_WriteString (s @ [newline]) off w = (w2, off2, r2)"
    by (cases "f_WriteString (s @ [newline]) off w") auto
  from f_WriteString_frame [of "s @ [newline]" off w] f
  have w2: "env w2 = env w \<and> beyond_fs w2 = beyond_fs w" by simp
  show ?case
  proof (cases r2)
    case None
    with f w2 Cons.IH [of off2 w2] show ?thesis by simp
  next
    case (Some e)
    with f w2 show ?thesis by simp
  qed
qed

lemma acquire_loop_frame:
  "env (fst (acquire_loop n lockErr w)) = env w \<and>
   beyond_fs (fst (acquire_loop n lockErr w)) = beyond_fs w"
proof (induction n arbitrary: lockErr w)
  case 0
  show ?case by simp
next
  case (Suc n)
  obtain w2 r2 where m: "os_Mkdir w = (w2, r2)" by (cases "os_Mkdir w")
  from os_Mkdir_frame [of w] m have w2: "env w2 = env w \<and> beyond_fs w2 = beyond_fs w" by simp
  show ?case
  proof (cases r2)
    case None
    with m w2 show ?thesis by simp
  next
    case (Some e)
    with m w2 Suc.IH [of "Some e" "log Warn_FailedToAcquireLock w2"] show ?thesis
      by (simp add: log_frame beyond_fs_def warned_log)
  qed
qed

lemma writeToNginxCachePurger_frame:
  "env (fst (writeToNginxCachePurger sls w)) = env w \<and>
   beyond_fs (fst (writeToNginxCachePurger sls w)) = beyond_fs w"
proof -
  obtain w1 r1 where a: "acquire_lock w = (w1, r1)" by (cases "acquire_lock w")
  from acquire_loop_frame [of 3 None w] a
  have w1: "env w1 = env w \<and> beyond_fs w1 = beyond_fs w" by (simp add: acquire_lock_def)
  obtain w2 r2 where op: "os_OpenFile w1 = (w2, r2)" by (cases "os_OpenFile w1")
  from os_OpenFile_frame [of w1] op w1
  have w2: "env w2 = env w \<and> beyond_fs w2 = beyond_fs w" by simp
  obtain w3 r3 where wa: "write_all sls 0 w2 = (w3, r3)" by (cases "write_all sls 0 w2")
  from write_all_frame [of sls 0 w2] wa w2
  have w3: "env w3 = env w \<and> beyond_fs w3 = beyond_fs w" by simp
  show ?thesis
    using a op wa w1 w2 w3
    by (simp add: writeToNginxCachePurger_def release_lock_frame sync_close_frame
        split: option.splits)
qed

lemma blockSkylinks_unfold:
  assumes "writeToNginxCachePurger sls w = (w1, err)"
  shows "blockSkylinks sls w =
     ((case err of Some e \<Rightarrow> log (Warn_CachePurger e) w1 | None \<Rightarrow> w1)\<lparr>requests := requests w @ [sls]\<rparr>,
      AddContext_opt (skyd_answer w (requests w) sls) ''block skylinks failed'')"
proof -
  from writeToNginxCachePurger_frame [of sls w] assms
  have "env w1 = env w \<and> beyond_fs w1 = beyond_fs w" by simp
  then have "requests w1 = requests w" "skyd_answer w1 = skyd_answer w"
    by (simp_all add: env_def beyond_fs_def)
  with assms show ?thesis
    by (cases err) (simp_all add: blockSkylinks_def skyd_BlockSkylinks_def log_def)
qed

lemma blockSkylinks_requests: "requests (fst (blockSkylinks sls w)) = requests w @ [sls]"
proof -
  obtain w1 err where a: "writeToNginxCachePurger sls w = (w1, err)"
    by (cases "writeToNginxCachePurger sls w")
  show ?thesis by (simp add: blockSkylinks_unfold [OF a])
qed

lemma blockSkylinks_result:
  "snd (blockSkylinks sls w) = AddContext_opt (skyd_answer w (requests w) sls) ''block skylinks failed''"
proof -
  obtain w1 err where a: "writeToNginxCachePurger sls w = (w1, err)"
    by (cases "writeToNginxCachePurger sls w")
  show ?thesis by (simp add: blockSkylinks_unfold [OF a])
qed

lemma blockSkylinks_frame:
  "env (fst (blockSkylinks sls w)) = env w \<and>
   ts_writes (fst (blockSkylinks sls w)) = ts_writes w \<and>
   checkpoint (fst (blockSkylinks sls w)) = checkpoint w \<and>
   polls (fst (blockSkylinks sls w)) = polls w \<and>
   warned (fst (blockSkylinks sls w)) = warned w"
proof -
  obtain w1 err where a: "writeToNginxCachePurger sls w = (w1, err)"
    by (cases "writeToNginxCachePurger sls w")
  from writeToNginxCachePurger_frame [of sls w] a
  have "env w1 = env w \<and> beyond_fs w1 = beyond_fs w" by simp
  then show ?thesis
    by (cases err) (simp_all add: blockSkylinks_unfold [OF a] env_def beyond_fs_def log_def
        warned_def empty_warnings_append)
qed

section \<open>The inner loop and the checkpoint write\<close>


lemma ctx_poll_eq: "ctx_poll w = (w\<lparr>polls := Suc (polls w)\<rparr>, ctx_done w (polls w))"
  by (simp add: ctx_poll_def)

lemma collect_frame:
  "env (fst (collect chunk block t w)) = env w \<and>
   requests (fst (collect chunk block t w)) = requests w \<and>
   ts_writes (fst (collect chunk block t w)) = ts_writes w \<and>
   checkpoint (fst (collect chunk block t w)) = checkpoint w"
proof (induction chunk arbitrary: block t w)
  case Nil
  show ?case by simp
next
  case (Cons sl chunk)
  show ?case
  proof (cases "ctx_done w (polls w)")
    case True
    then show ?thesis by (simp add: ctx_poll_eq env_def)
  next
    case False
    show ?thesis
    proof (cases "Skylink sl = []")
      case True
      with False Cons.IH [of block t "log (Warn_EmptySkylink sl) (w\<lparr>polls := Suc (polls w)\<rparr>)"]
      show ?thesis by (simp add: ctx_poll_eq log_frame) (simp add: env_def log_def)
    next
      case ne: False
      with False
        Cons.IH [of "block @ [Skylink sl]"
          "if TimestampAdded sl > t then TimestampAdded sl else t" "w\<lparr>polls := Suc (polls w)\<rparr>"]
      show ?thesis by (simp add: ctx_poll_eq env_def)
    qed
  qed
qed

lemma collect_Some:
  "collect chunk block t w = (w', Some (b, t')) \<Longrightarrow>
   b = block @ block_of chunk \<and>
   t' = fold (\<lambda>sl t. if TimestampAdded sl > t then TimestampAdded sl else t)
          (filter (\<lambda>sl. Skylink sl \<noteq> []) chunk) t \<and>
   warned w' = warned w @ filter (\<lambda>sl. Skylink sl = []) chunk"
proof (induction chunk arbitrary: block t w)
  case Nil
  then show ?case by (simp add: block_of_def)
next
  case (Cons sl chunk)
  from Cons.prems have nd: "\<not> ctx_done w (polls w)"
    by (auto simp: ctx_poll_eq split: if_splits)
  show ?case
  proof (cases "Skylink sl = []")
    case True
    with nd Cons.prems
    have "collect chunk block t (log (Warn_EmptySkylink sl) (w\<lparr>polls := Suc (polls w)\<rparr>))
            = (w', Some (b, t'))"
      by (simp add: ctx_poll_eq)
    from Cons.IH [OF this] True show ?thesis
      by (simp add: block_of_def warned_log warned_updates)
  next
    case False
    with nd Cons.prems
    have "collect chunk (block @ [Skylink sl])
            (if TimestampAdded sl > t then TimestampAdded sl else t) (w\<lparr>polls := Suc (polls w)\<rparr>)
            = (w', Some (b, t'))"
      by (simp add: ctx_poll_eq)
    from Cons.IH [OF this] False show ?thesis
      by (simp add: block_of_def warned_updates)
  qed
qed

lemma collect_None:
  "collect chunk block t w = (w', None) \<Longrightarrow>
   (\<exists>n. ctx_done w n) \<and>
   (\<exists>m\<le>length chunk. warned w' = warned w @ filter (\<lambda>sl. Skylink sl = []) (take m chunk))"
proof (induction chunk arbitrary: block t w)
  case Nil
  then show ?case by simp
next
  case (Cons sl chunk)
  show ?case
  proof (cases "ctx_done w (polls w)")
    case True
    with Cons.prems have "w' = w\<lparr>polls := Suc (polls w)\<rparr>" by (simp add: ctx_poll_eq)
    then have "warned w' = warned w @ filter (\<lambda>sl. Skylink sl = []) (take 0 (sl # chunk))"
      by (simp add: warned_updates)
    with True show ?thesis by blast
  next
    case nd: False
    show ?thesis
    proof (cases "Skylink sl = []")
      case True
      let ?w1 = "log (Warn_EmptySkylink sl) (w\<lparr>polls := Suc (polls w)\<rparr>)"
      from nd True Cons.prems have "collect chunk block t ?w1 = (w', None)"
        by (simp add: ctx_poll_eq)
      from Cons.IH [OF this] obtain n m where
        n: "ctx_done ?w1 n" and m: "m \<le> length chunk"
        "warned w' = warned ?w1 @ filter (\<lambda>sl. Skylink sl = []) (take m chunk)"
        by blast
      from n have "ctx_done w n" by (simp add: log_def)
      moreover from m True
      have "warned w' = warned w @ filter (\<lambda>sl. Skylink sl = []) (take (Suc m) (sl # chunk))"
        by (simp add: warned_log warned_updates)
      moreover from m have "Suc m \<le> length (sl # chunk)" by simp
      ultimately show ?thesis by blast
    next
      case False
      let ?w1 = "w\<lparr>polls := Suc (polls w)\<rparr>"
      from nd False Cons.prems
      have "collect chunk (block @ [Skylink sl])
              (if TimestampAdded sl > t then TimestampAdded sl else t) ?w1 = (w', None)"
        by (simp add: ctx_poll_eq)
      from Cons.IH [OF this] obtain n m where
        n: "ctx_done ?w1 n" and m: "m \<le> length chunk"
        "warned w' = warned ?w1 @ filter (\<lambda>sl. Skylink sl = []) (take m chunk)"
        by blast
      from n have "ctx_done w n" by simp
      moreover from m False
      have "warned w' = warned w @ filter (\<lambda>sl. Skylink sl = []) (take (Suc m) (sl # chunk))"
        by (simp add: warned_updates)
      moreover from m have "Suc m \<le> length (sl # chunk)" by simp
      ultimately show ?thesis by blast
    qed
  qed
qed

lemma collect_polls:
  "collect chunk block t w = (w', Some r) \<Longrightarrow> polls w' = polls w + length chunk"
proof (induction chunk arbitrary: block t w)
  case Nil
  then show ?case by simp
next
  case (Cons sl chunk)
  from Cons.prems have nd: "\<not> ctx_done w (polls w)"
    by (auto simp: ctx_poll_eq split: if_splits)
  show ?case
  proof (cases "Skylink sl = []")
    case True
    with nd Cons.prems
    have "collect chunk block t (log (Warn_EmptySkylink sl) (w\<lparr>polls := Suc (polls w)\<rparr>))
            = (w', Some r)"
      by (simp add: ctx_poll_eq)
    from Cons.IH [OF this] show ?thesis by (simp add: log_frame)
  next
    case False
    with nd Cons.prems
    have "collect chunk (block @ [Skylink sl])
            (if TimestampAdded sl > t then TimestampAdded sl else t) (w\<lparr>polls := Suc (polls w)\<rparr>)
            = (w', Some r)"
      by (simp add: ctx_poll_eq)
    from Cons.IH [OF this] show ?thesis by simp
  qed
qed

lemma collect_None_poll:
  "collect chunk block t w = (w', None) \<Longrightarrow>
   \<exists>n. polls w \<le> n \<and> n < polls w + length chunk \<and> ctx_done w n"
proof (induction chunk arbitrary: block t w)
  case Nil
  then show ?case by simp
next
  case (Cons sl chunk)
  show ?case
  proof (cases "ctx_done w (polls w)")
    case True
    then have "polls w \<le> polls w \<and> polls w < polls w + length (sl # chunk) \<and> ctx_done w (polls w)"
      by simp
    then show ?thesis by blast
  next
    case nd: False
    let ?w0 = "w\<lparr>polls := Suc (polls w)\<rparr>"
    let ?w1 = "if Skylink sl = [] then log (Warn_EmptySkylink sl) ?w0 else ?w0"
    from nd Cons.prems obtain block' t' where "collect chunk block' t' ?w1 = (w', None)"
      by (cases "Skylink sl = []") (simp_all add: ctx_poll_eq)
    from Cons.IH [OF this] obtain n where
      n: "polls ?w1 \<le> n" "n < polls ?w1 + length chunk" "ctx_done ?w1 n"
      by blast
    have "polls ?w1 = Suc (polls w)" "ctx_done ?w1 = ctx_done w"
      by (simp_all add: log_def)
    with n have "polls w \<le> n \<and> n < polls w + length (sl # chunk) \<and> ctx_done w n"
      by simp
    then show ?thesis by blast
  qed
qed

lemma SetLatestBlockTimestamp_eq:
  "SetLatestBlockTimestamp t w =
     (w\<lparr>ts_writes := ts_writes w @ [t],
        checkpoint := (if db_answer w (ts_writes w) t = None then t else checkpoint w)\<rparr>,
      db_answer w (ts_writes w) t)"
  by (simp add: SetLatestBlockTimestamp_def Let_def)

lemma is_fatal_None: "\<not> is_fatal None"
  by (simp add: is_fatal_def)

section \<open>One turn of the loop over the chunks\<close>


lemma env_eqD:
  "env w' = env w \<Longrightarrow>
   db_SkylinksToBlock w' = db_SkylinksToBlock w \<and> skyd_answer w' = skyd_answer w \<and>
   db_answer w' = db_answer w \<and> ctx_done w' = ctx_done w \<and> os_answer w' = os_answer w"
  by (simp add: env_def)

lemma for_chunks_Nil: "for_chunks [] w = (w, None)"
  by (simp add: for_chunks.simps)

lemma for_chunks_cases [consumes 1, case_names cancelled rejected unwritten continued]:
  assumes ne: "xs \<noteq> []"
  obtains
    (cancelled) w' n m where
      "for_chunks xs w = (w', Some None)" "ctx_done w n" "env w' = env w"
      "requests w' = requests w" "ts_writes w' = ts_writes w" "checkpoint w' = checkpoint w"
      "m \<le> length (take skylinksChunk xs)"
      "warned w' = warned w @ filter (\<lambda>sl. Skylink sl = []) (take m (take skylinksChunk xs))"
      "polls w \<le> n" "n < polls w + length (take skylinksChunk xs)"
  | (rejected) w' e where
      "skyd_answer w (requests w) (block_of (take skylinksChunk xs)) = Some e"
      "is_fatal (Some (AddContext e ''block skylinks failed''))"
      "for_chunks xs w =
         (w', Some (Some (AddContext (AddContext e ''block skylinks failed'')
                            ''failed to block skylinks list'')))"
      "env w' = env w"
      "requests w' = requests w @ [block_of (take skylinksChunk xs)]"
      "ts_writes w' = ts_writes w" "checkpoint w' = checkpoint w"
      "warned w' = warned w @ filter (\<lambda>sl. Skylink sl = []) (take skylinksChunk xs)"
  | (unwritten) w' e where
      "\<not> is_fatal (AddContext_opt (skyd_answer w (requests w) (block_of (take skylinksChunk xs)))
                    ''block skylinks failed'')"
      "db_answer w (ts_writes w) (latest_of (take skylinksChunk xs)) = Some e"
      "is_fatal (Some e)"
      "for_chunks xs w = (w', Some (Some e))"
      "env w' = env w"
      "requests w' = requests w @ [block_of (take skylinksChunk xs)]"
      "ts_writes w' = ts_writes w @ [latest_of (take skylinksChunk xs)]"
      "checkpoint w' = checkpoint w"
      "warned w' = warned w @ filter (\<lambda>sl. Skylink sl = []) (take skylinksChunk xs)"
  | (continued) w3 where
      "\<not> is_fatal (AddContext_opt (skyd_answer w (requests w) (block_of (take skylinksChunk xs)))
                    ''block skylinks failed'')"
      "\<not> is_fatal (db_answer w (ts_writes w) (latest_of (take skylinksChunk xs)))"
      "for_chunks xs w = for_chunks (drop skylinksChunk xs) w3"
      "env w3 = env w"
      "requests w3 = requests w @ [block_of (take skylinksChunk xs)]"
      "ts_writes w3 = ts_writes w @ [latest_of (take skylinksChunk xs)]"
      "checkpoint w3 =
         (if db_answer w (ts_writes w) (latest_of (take skylinksChunk xs)) = None
          then latest_of (take skylinksChunk xs) else checkpoint w)"
      "warned w3 = warned w @ filter (\<lambda>sl. Skylink sl = []) (take skylinksChunk xs)"
      "polls w3 = polls w + length (take skylinksChunk xs)"
proof -
  let ?chunk = "take skylinksChunk xs"
  let ?w0 = "log (Trace_WillBlockChunk ?chunk) w"
  let ?E = "\<lambda>sl. Skylink sl = []"
  obtain w1 res where c: "collect ?chunk [] 0 ?w0 = (w1, res)"
    by (cases "collect ?chunk [] 0 ?w0")
  from collect_frame [of ?chunk "[]" 0 ?w0] c
  have f1: "env w1 = env w" "requests w1 = requests w" "ts_writes w1 = ts_writes w"
    "checkpoint w1 = checkpoint w"
    by (simp_all add: log_frame)
  have w0: "warned ?w0 = warned w" "ctx_done ?w0 = ctx_done w"
    by (simp add: warned_log) (simp add: log_def)
  show thesis
  proof (cases res)
    case None
    from c None ne have r: "for_chunks xs w = (w1, Some None)"
      by (simp add: for_chunks.simps [of xs w])
    from collect_None [of ?chunk "[]" 0 ?w0 w1] c None obtain m where
      "m \<le> length ?chunk" "warned w1 = warned ?w0 @ filter ?E (take m ?chunk)"
      by blast
    with w0 have m: "m \<le> length ?chunk" "warned w1 = warned w @ filter ?E (take m ?chunk)"
      by simp_all
    from collect_None_poll [of ?chunk "[]" 0 ?w0 w1] c None obtain n where
      "polls ?w0 \<le> n" "n < polls ?w0 + length ?chunk" "ctx_done ?w0 n"
      by blast
    with w0 have n: "ctx_done w n" "polls w \<le> n" "n < polls w + length ?chunk"
      by (simp_all add: log_frame)
    show thesis
      by (rule cancelled [of w1 n m]) (rule r n f1 m)+
  next
    case (Some bt)
    obtain b t where bt: "bt = (b, t)" by (cases bt)
    from collect_Some [of ?chunk "[]" 0 ?w0 w1 b t] c Some bt w0
    have b: "b = block_of ?chunk" and t: "t = latest_of ?chunk"
      and wn1: "warned w1 = warned w @ filter ?E ?chunk"
      by (simp_all add: latest_of_def)
    from collect_polls [of ?chunk "[]" 0 ?w0 w1 bt] c Some
    have p1: "polls w1 = polls w + length ?chunk"
      by (simp add: log_frame)
    obtain w2 err where bs: "blockSkylinks b w1 = (w2, err)"
      by (cases "blockSkylinks b w1")
    from blockSkylinks_requests [of b w1] blockSkylinks_result [of b w1]
      blockSkylinks_frame [of b w1] bs f1 wn1 env_eqD [OF f1(1)]
    have f2: "env w2 = env w" "requests w2 = requests w @ [b]" "ts_writes w2 = ts_writes w"
      "checkpoint w2 = checkpoint w" "warned w2 = warned w @ filter ?E ?chunk"
      and err: "err = AddContext_opt (skyd_answer w (requests w) b) ''block skylinks failed''"
      by simp_all
    from blockSkylinks_frame [of b w1] bs p1
    have p2: "polls w2 = polls w + length ?chunk"
      by simp
    show thesis
    proof (cases "is_fatal err")
      case True
      then obtain e where e: "skyd_answer w (requests w) b = Some e"
        using err by (cases "skyd_answer w (requests w) b") (simp_all add: AddContext_opt_def is_fatal_None)
      let ?e1 = "AddContext e ''block skylinks failed''"
      let ?e2 = "AddContext ?e1 ''failed to block skylinks list''"
      from e err have err1: "err = Some ?e1" by (simp add: AddContext_opt_def)
      from c Some bt bs True ne err1
      have r: "for_chunks xs w = (log (Trace_FailedToBlock ?e2) w2, Some (Some ?e2))"
        by (simp add: for_chunks.simps [of xs w] AddContext_opt_def)
      show thesis
      proof (rule rejected [of e "log (Trace_FailedToBlock ?e2) w2"])
        show "skyd_answer w (requests w) (block_of ?chunk) = Some e" using e b by simp
        show "is_fatal (Some ?e1)" using True err1 by simp
        show "for_chunks xs w = (log (Trace_FailedToBlock ?e2) w2, Some (Some ?e2))" by (rule r)
      qed (use f2 b in \<open>simp_all add: log_frame warned_log\<close>)
    next
      case nf: False
      let ?w3 = "w2\<lparr>ts_writes := ts_writes w2 @ [t],
                    checkpoint := (if db_answer w2 (ts_writes w2) t = None then t else checkpoint w2)\<rparr>"
      let ?err2 = "db_answer w (ts_writes w) t"
      from env_eqD [OF f2(1)] f2 have s: "SetLatestBlockTimestamp t w2 = (?w3, ?err2)"
        by (simp add: SetLatestBlockTimestamp_eq)
      have f3: "env ?w3 = env w" "requests ?w3 = requests w @ [b]"
        "ts_writes ?w3 = ts_writes w @ [t]"
        "warned ?w3 = warned w @ filter ?E ?chunk"
        "checkpoint ?w3 = (if ?err2 = None then t else checkpoint w)"
        using f2 env_eqD [OF f2(1)] by (simp_all add: env_def warned_updates)
      show thesis
      proof (cases "is_fatal ?err2")
        case True
        then obtain e where e: "?err2 = Some e"
          by (cases ?err2) (simp_all add: is_fatal_None)
        from c Some bt bs nf s True ne e
        have r: "for_chunks xs w = (log (Trace_FailedToUpdateTimestamp e) ?w3, Some (Some e))"
          by (simp add: for_chunks.simps [of xs w])
        show thesis
        proof (rule unwritten [of e "log (Trace_FailedToUpdateTimestamp e) ?w3"])
          show "\<not> is_fatal (AddContext_opt (skyd_answer w (requests w) (block_of ?chunk))
                  ''block skylinks failed'')"
            using nf err b by simp
          show "db_answer w (ts_writes w) (latest_of ?chunk) = Some e" using e t by simp
          show "is_fatal (Some e)" using True e by simp
          show "for_chunks xs w = (log (Trace_FailedToUpdateTimestamp e) ?w3, Some (Some e))"
            by (rule r)
          show "checkpoint (log (Trace_FailedToUpdateTimestamp e) ?w3) = checkpoint w"
            using f3 e by (simp add: log_frame)
        qed (use f3 b t in \<open>simp_all add: log_frame warned_log\<close>)
      next
        case False
        from c Some bt bs nf s False ne
        have r: "for_chunks xs w = for_chunks (drop skylinksChunk xs) ?w3"
          by (simp add: for_chunks.simps [of xs w])
        show thesis
        proof (rule continued [of ?w3])
          show "\<not> is_fatal (AddContext_opt (skyd_answer w (requests w) (block_of ?chunk))
                  ''block skylinks failed'')"
            using nf err b by simp
          show "\<not> is_fatal (db_answer w (ts_writes w) (latest_of ?chunk))" using False t by simp
          show "for_chunks xs w = for_chunks (drop skylinksChunk xs) ?w3" by (rule r)
          show "polls ?w3 = polls w + length ?chunk" using p2 by simp
        qed (use f3 b t in simp_all)
      qed
    qed
  qed
qed

section \<open>The loop over the chunks\<close>


lemma take_min_length: "take (min k (length xs)) xs = take k xs"
  by (simp add: min_def)

lemma block_of_append: "block_of (xs @ ys) = block_of xs @ block_of ys"
  by (simp add: block_of_def)

lemma block_of_shape: "length (block_of chunk) \<le> length chunk \<and> [] \<notin> set (block_of chunk)"
  by (auto simp: block_of_def)

lemma skylinksChunk_pos: "0 < skylinksChunk"
  by (simp add: skylinksChunk_def)

lemma for_chunks_batches:
  "for_chunks xs w = (w', r) \<Longrightarrow>
   \<exists>bs n m. requests w' = requests w @ bs \<and>
     (\<forall>b\<in>set bs. length b \<le> skylinksChunk \<and> [] \<notin> set b) \<and>
     n \<le> m \<and> m \<le> length xs \<and> concat bs = block_of (take n xs) \<and>
     warned w' = warned w @ filter (\<lambda>sl. Skylink sl = []) (take m xs) \<and>
     (r = None \<longrightarrow> n = length xs)"
proof (induction "length xs" arbitrary: xs w rule: less_induct)
  case less
  let ?C = skylinksChunk
  let ?E = "\<lambda>sl. Skylink sl = []"
  let ?chunk = "take ?C xs"
  have one: "\<exists>bs n m. requests w' = requests w @ bs \<and>
     (\<forall>b\<in>set bs. length b \<le> ?C \<and> [] \<notin> set b) \<and>
     n \<le> m \<and> m \<le> length xs \<and> concat bs = block_of (take n xs) \<and>
     warned w' = warned w @ filter ?E (take m xs) \<and> (r = None \<longrightarrow> n = length xs)"
    if rq: "requests w' = requests w @ [block_of ?chunk]"
      and wn: "warned w' = warned w @ filter ?E ?chunk" and r: "r \<noteq> None" for w' r
  proof -
    let ?n = "min ?C (length xs)"
    have "concat [block_of ?chunk] = block_of (take ?n xs)"
      by (simp add: take_min_length)
    moreover have "\<forall>b\<in>set [block_of ?chunk]. length b \<le> ?C \<and> [] \<notin> set b"
      using block_of_shape [of ?chunk] by simp
    moreover have "warned w' = warned w @ filter ?E (take ?n xs)"
      using wn by (simp add: take_min_length)
    moreover have "?n \<le> length xs" by simp
    ultimately show ?thesis using rq r by blast
  qed
  show ?case
  proof (cases "xs = []")
    case True
    with less.prems have "w' = w" "r = None" by (simp_all add: for_chunks_Nil)
    with True show ?thesis by (simp add: block_of_def)
  next
    case False
    then show ?thesis
    proof (cases rule: for_chunks_cases [where w = w])
      case (cancelled w'' n m)
      with less.prems have eq: "w' = w''" "r = Some None" by simp_all
      from cancelled(7) have "m \<le> ?C" by simp
      then have "take m ?chunk = take m xs" by (simp add: min_def)
      with cancelled eq have "requests w' = requests w @ []"
        "warned w' = warned w @ filter ?E (take m xs)" "m \<le> length xs" "concat [] = block_of (take 0 xs)"
        by (simp_all add: block_of_def)
      with eq show ?thesis by (metis (no_types, lifting) empty_iff empty_set le0 option.simps(3))
    next
      case (rejected w'' e)
      with less.prems have eq: "w' = w''" "r \<noteq> None" by auto
      from rejected eq have "requests w' = requests w @ [block_of ?chunk]"
        "warned w' = warned w @ filter ?E ?chunk" by simp_all
      then show ?thesis using eq(2) by (rule one)
    next
      case (unwritten w'' e)
      with less.prems have eq: "w' = w''" "r \<noteq> None" by auto
      from unwritten eq have "requests w' = requests w @ [block_of ?chunk]"
        "warned w' = warned w @ filter ?E ?chunk" by simp_all
      then show ?thesis using eq(2) by (rule one)
    next
      case (continued w3)
      let ?rest = "drop ?C xs"
      from False have "length ?rest < length xs" by (simp add: skylinksChunk_pos)
      moreover from continued less.prems have "for_chunks ?rest w3 = (w', r)" by simp
      ultimately obtain bs n m where
        ih: "requests w' = requests w3 @ bs" "\<forall>b\<in>set bs. length b \<le> ?C \<and> [] \<notin> set b"
        "n \<le> m" "m \<le> length ?rest" "concat bs = block_of (take n ?rest)"
        "warned w' = warned w3 @ filter ?E (take m ?rest)" "r = None \<longrightarrow> n = length ?rest"
        using less.hyps [of ?rest w3] by blast
      let ?n = "min (?C + n) (length xs)" and ?m = "min (?C + m) (length xs)"
      have "requests w' = requests w @ (block_of ?chunk # bs)"
        using ih continued by simp
      moreover have "\<forall>b\<in>set (block_of ?chunk # bs). length b \<le> ?C \<and> [] \<notin> set b"
        using ih block_of_shape [of ?chunk] by simp
      moreover have "?n \<le> ?m" using ih by simp
      moreover have "?m \<le> length xs" by simp
      moreover have "concat (block_of ?chunk # bs) = block_of (take ?n xs)"
        using ih by (simp add: take_min_length take_add block_of_append)
      moreover have "warned w' = warned w @ filter ?E (take ?m xs)"
        using ih continued by (simp add: take_min_length take_add)
      moreover have "r = None \<longrightarrow> ?n = length xs"
        using ih by auto
      ultimately show ?thesis by blast
    qed
  qed
qed

lemma for_chunks_env: "for_chunks xs w = (w', r) \<Longrightarrow> env w' = env w"
proof (induction "length xs" arbitrary: xs w rule: less_induct)
  case less
  show ?case
  proof (cases "xs = []")
    case True
    with less.prems show ?thesis by (simp add: for_chunks_Nil)
  next
    case False
    then show ?thesis
    proof (cases rule: for_chunks_cases [where w = w])
      case (continued w3)
      from False have "length (drop skylinksChunk xs) < length xs" by (simp add: skylinksChunk_pos)
      moreover from continued less.prems have "for_chunks (drop skylinksChunk xs) w3 = (w', r)" by simp
      ultimately have "env w' = env w3" by (rule less.hyps)
      with continued show ?thesis by simp
    qed (use less.prems in simp_all)
  qed
qed

lemma for_chunks_completes:
  assumes "\<forall>n. \<not> ctx_done w n"
    and "\<forall>h b. \<not> is_fatal (AddContext_opt (skyd_answer w h b) ''block skylinks failed'')"
    and "\<forall>h t. \<not> is_fatal (db_answer w h t)"
  shows "snd (for_chunks xs w) = None"
  using assms
proof (induction "length xs" arbitrary: xs w rule: less_induct)
  case less
  show ?case
  proof (cases "xs = []")
    case True
    then show ?thesis by (simp add: for_chunks_Nil)
  next
    case False
    then show ?thesis
    proof (cases rule: for_chunks_cases [where w = w])
      case (cancelled w' n m)
      with less.prems show ?thesis by simp
    next
      case (rejected w' e)
      with less.prems(2) show ?thesis by (metis AddContext_opt_def option.simps(9))
    next
      case (unwritten w' e)
      with less.prems(3) show ?thesis by metis
    next
      case (continued w3)
      from False have "length (drop skylinksChunk xs) < length xs" by (simp add: skylinksChunk_pos)
      moreover from env_eqD [OF continued(4)] less.prems
      have "\<forall>n. \<not> ctx_done w3 n"
        "\<forall>h b. \<not> is_fatal (AddContext_opt (skyd_answer w3 h b) ''block skylinks failed'')"
        "\<forall>h t. \<not> is_fatal (db_answer w3 h t)"
        by simp_all
      ultimately have "snd (for_chunks (drop skylinksChunk xs) w3) = None"
        by (rule less.hyps)
      with continued show ?thesis by simp
    qed
  qed
qed

section \<open>A sweep stopped by a rejected chunk\<close>


lemma is_fatal_AddContext_opt_Some:
  "is_fatal (AddContext_opt (Some e) s) = is_fatal (Some (AddContext e s))"
  by (simp add: AddContext_opt_def)

lemma chunk_at_0: "chunk_at 0 xs = take skylinksChunk xs"
  by (simp add: chunk_at_def)

lemma chunk_at_drop: "chunk_at j (drop skylinksChunk xs) = chunk_at (Suc j) xs"
  by (simp add: chunk_at_def add.commute)

lemma submitted_before_0: "submitted_before 0 xs = []"
  by (simp add: submitted_before_def)

lemma written_before_0: "written_before 0 xs = []"
  by (simp add: written_before_def)

lemma submitted_before_Suc:
  "submitted_before (Suc j) xs
     = block_of (take skylinksChunk xs) # submitted_before j (drop skylinksChunk xs)"
  by (simp only: submitted_before_def map_upt_Suc chunk_at_drop chunk_at_0)

lemma written_before_Suc:
  "written_before (Suc j) xs
     = latest_of (take skylinksChunk xs) # written_before j (drop skylinksChunk xs)"
  by (simp only: written_before_def map_upt_Suc chunk_at_drop chunk_at_0)

lemma for_chunks_rejected_at_chunk:
  assumes nd: "\<forall>n. polls w \<le> n \<and> n < polls w + length (take (Suc k * skylinksChunk) xs)
                 \<longrightarrow> \<not> ctx_done w n"
    and wr: "\<forall>j<k. db_answer w (ts_writes w @ written_before j xs) (latest_of (chunk_at j xs)) = None"
    and acc: "\<forall>j<k. \<not> is_fatal (AddContext_opt
                 (skyd_answer w (requests w @ submitted_before j xs) (block_of (chunk_at j xs)))
                 ''block skylinks failed'')"
    and rej: "is_fatal (AddContext_opt
                 (skyd_answer w (requests w @ submitted_before k xs) (block_of (chunk_at k xs)))
                 ''block skylinks failed'')"
    and kC: "k * skylinksChunk < length xs"
  shows "\<exists>w'. for_chunks xs w =
             (w', Some (AddContext_opt (AddContext_opt
                (skyd_answer w (requests w @ submitted_before k xs) (block_of (chunk_at k xs)))
                ''block skylinks failed'') ''failed to block skylinks list'')) \<and>
           requests w' = requests w @ submitted_before (Suc k) xs \<and>
           ts_writes w' = ts_writes w @ written_before k xs \<and>
           checkpoint w' = (if k = 0 then checkpoint w else latest_of (chunk_at (k - 1) xs))"
  using assms
proof (induction k arbitrary: xs w)
  case 0
  let ?C = skylinksChunk
  from "0.prems"(5) have ne: "xs \<noteq> []" by auto
  from "0.prems"(4)
  have rj: "is_fatal (AddContext_opt (skyd_answer w (requests w) (block_of (take ?C xs)))
              ''block skylinks failed'')"
    by (simp add: submitted_before_0 chunk_at_0)
  from ne show ?case
  proof (cases rule: for_chunks_cases [where w = w])
    case (cancelled w' n m)
    with "0.prems"(1) show ?thesis by simp
  next
    case (rejected w' e)
    then show ?thesis
      by (simp add: submitted_before_0 submitted_before_Suc written_before_0 chunk_at_0
          AddContext_opt_def)
  next
    case (unwritten w' e)
    with rj show ?thesis by simp
  next
    case (continued w3)
    with rj show ?thesis by simp
  qed
next
  case (Suc k)
  let ?C = skylinksChunk
  let ?rest = "drop ?C xs"
  from Suc.prems(5) have ne: "xs \<noteq> []" and long: "?C < length xs" by auto
  from Suc.prems(3) have a0: "\<not> is_fatal (AddContext_opt
      (skyd_answer w (requests w) (block_of (take ?C xs))) ''block skylinks failed'')"
    using submitted_before_0 [of xs] chunk_at_0 [of xs] by (metis append_Nil2 zero_less_Suc)
  from Suc.prems(2) have w0: "db_answer w (ts_writes w) (latest_of (take ?C xs)) = None"
    using written_before_0 [of xs] chunk_at_0 [of xs] by (metis append_Nil2 zero_less_Suc)
  from ne show ?case
  proof (cases rule: for_chunks_cases [where w = w])
    case (cancelled w' n m)
    from long have "length (take ?C xs) \<le> length (take (Suc (Suc k) * ?C) xs)" by simp
    with cancelled(9,10) have "polls w \<le> n \<and> n < polls w + length (take (Suc (Suc k) * ?C) xs)"
      by simp
    with Suc.prems(1) cancelled(2) show ?thesis by blast
  next
    case (rejected w' e)
    with a0 show ?thesis by (simp add: is_fatal_AddContext_opt_Some)
  next
    case (unwritten w' e)
    with w0 show ?thesis by simp
  next
    case (continued w3)
    note e = env_eqD [OF continued(4)]
    have rq: "requests w3 @ submitted_before j ?rest = requests w @ submitted_before (Suc j) xs" for j
      using continued(5) by (simp add: submitted_before_Suc)
    have tw: "ts_writes w3 @ written_before j ?rest = ts_writes w @ written_before (Suc j) xs" for j
      using continued(6) by (simp add: written_before_Suc)
    have len: "polls w3 + length (take (Suc k * ?C) ?rest)
                 = polls w + length (take (Suc (Suc k) * ?C) xs)"
      using continued(9) long by (auto simp: min_def)
    have "\<forall>n. polls w3 \<le> n \<and> n < polls w3 + length (take (Suc k * ?C) ?rest)
            \<longrightarrow> \<not> ctx_done w3 n"
    proof (intro allI impI)
      fix n
      assume "polls w3 \<le> n \<and> n < polls w3 + length (take (Suc k * ?C) ?rest)"
      with len continued(9)
      have "polls w \<le> n \<and> n < polls w + length (take (Suc (Suc k) * ?C) xs)" by simp
      with Suc.prems(1) e show "\<not> ctx_done w3 n" by simp
    qed
    moreover have "\<forall>j<k. db_answer w3 (ts_writes w3 @ written_before j ?rest)
        (latest_of (chunk_at j ?rest)) = None"
    proof (intro allI impI)
      fix j
      assume "j < k"
      then have "Suc j < Suc k" by simp
      with Suc.prems(2)
      have "db_answer w (ts_writes w @ written_before (Suc j) xs) (latest_of (chunk_at (Suc j) xs)) = None"
        by blast
      with e show "db_answer w3 (ts_writes w3 @ written_before j ?rest)
          (latest_of (chunk_at j ?rest)) = None"
        by (simp only: tw chunk_at_drop)
    qed
    moreover have "\<forall>j<k. \<not> is_fatal (AddContext_opt
        (skyd_answer w3 (requests w3 @ submitted_before j ?rest) (block_of (chunk_at j ?rest)))
        ''block skylinks failed'')"
    proof (intro allI impI)
      fix j
      assume "j < k"
      then have "Suc j < Suc k" by simp
      with Suc.prems(3) have "\<not> is_fatal (AddContext_opt
          (skyd_answer w (requests w @ submitted_before (Suc j) xs) (block_of (chunk_at (Suc j) xs)))
          ''block skylinks failed'')"
        by blast
      with e show "\<not> is_fatal (AddContext_opt
          (skyd_answer w3 (requests w3 @ submitted_before j ?rest) (block_of (chunk_at j ?rest)))
          ''block skylinks failed'')"
        by (simp only: rq chunk_at_drop simp_thms)
    qed
    moreover have "is_fatal (AddContext_opt
        (skyd_answer w3 (requests w3 @ submitted_before k ?rest) (block_of (chunk_at k ?rest)))
        ''block skylinks failed'')"
      using e Suc.prems(4) by (simp only: rq chunk_at_drop simp_thms)
    moreover have "k * ?C < length ?rest"
      using Suc.prems(5) by simp
    ultimately obtain w' where
      ih: "for_chunks ?rest w3 =
             (w', Some (AddContext_opt (AddContext_opt
                (skyd_answer w3 (requests w3 @ submitted_before k ?rest) (block_of (chunk_at k ?rest)))
                ''block skylinks failed'') ''failed to block skylinks list''))"
      "requests w' = requests w3 @ submitted_before (Suc k) ?rest"
      "ts_writes w' = ts_writes w3 @ written_before k ?rest"
      "checkpoint w' = (if k = 0 then checkpoint w3 else latest_of (chunk_at (k - 1) ?rest))"
      using Suc.IH [of w3 ?rest] by blast
    have "for_chunks xs w =
             (w', Some (AddContext_opt (AddContext_opt
                (skyd_answer w (requests w @ submitted_before (Suc k) xs) (block_of (chunk_at (Suc k) xs)))
                ''block skylinks failed'') ''failed to block skylinks list''))"
      using ih(1) continued(3) e by (simp only: rq chunk_at_drop)
    moreover have "requests w' = requests w @ submitted_before (Suc (Suc k)) xs"
      using ih(2) by (simp only: rq)
    moreover have "ts_writes w' = ts_writes w @ written_before (Suc k) xs"
      using ih(3) by (simp only: tw)
    moreover have "checkpoint w' = latest_of (chunk_at k xs)"
    proof (cases "k = 0")
      case True
      with ih(4) continued(7) w0 show ?thesis by (simp add: chunk_at_0)
    next
      case False
      then have "Suc (k - 1) = k" by simp
      with ih(4) False chunk_at_drop [of "k - 1" xs] show ?thesis by simp
    qed
    ultimately show ?thesis by simp
  qed
qed

lemma fold_latest_Max:
  "fold (\<lambda>sl t. if TimestampAdded sl > t then TimestampAdded sl else t) ys t0
     = Max (insert t0 (TimestampAdded ` set ys))"
proof (induction ys arbitrary: t0)
  case Nil
  show ?case by simp
next
  case (Cons y ys)
  have "insert (max t0 (TimestampAdded y)) (TimestampAdded ` set ys) \<noteq> {}" by simp
  have "Max (insert t0 (insert (TimestampAdded y) (TimestampAdded ` set ys)))
          = Max (insert (max t0 (TimestampAdded y)) (TimestampAdded ` set ys))"
    by (cases "set ys = {}") (simp_all add: max.assoc)
  moreover have "(if TimestampAdded y > t0 then TimestampAdded y else t0) = max t0 (TimestampAdded y)"
    by (simp add: max_def)
  ultimately show ?case using Cons.IH [of "max t0 (TimestampAdded y)"] by simp
qed

lemma latest_of_Max:
  assumes "\<exists>i\<in>set chunk. Skylink i \<noteq> []" and "\<forall>i\<in>set chunk. 0 \<le> TimestampAdded i"
  shows "latest_of chunk = Max (TimestampAdded ` {i \<in> set chunk. Skylink i \<noteq> []})"
proof -
  let ?S = "TimestampAdded ` {i \<in> set chunk. Skylink i \<noteq> []}"
  have fin: "finite ?S" by simp
  from assms(1) have ne: "?S \<noteq> {}" by auto
  from assms(2) have "\<forall>s\<in>?S. 0 \<le> s" by auto
  with ne fin have "0 \<le> Max ?S" by (meson Max_in)
  with ne fin have "Max (insert 0 ?S) = Max ?S" by (simp add: max_def)
  moreover have "set (filter (\<lambda>sl. Skylink sl \<noteq> []) chunk) = {i \<in> set chunk. Skylink i \<noteq> []}"
    by auto
  ultimately show ?thesis by (simp add: latest_of_def fold_latest_Max)
qed

lemma Max_last_chunk:
  assumes srt: "sorted (map TimestampAdded (pre @ chunk))"
    and ne: "\<exists>i\<in>set chunk. Skylink i \<noteq> []"
  shows "Max (TimestampAdded ` {i \<in> set chunk. Skylink i \<noteq> []})
           = Max (TimestampAdded ` {i \<in> set (pre @ chunk). Skylink i \<noteq> []})"
proof -
  let ?B = "TimestampAdded ` {i \<in> set chunk. Skylink i \<noteq> []}"
  let ?A = "TimestampAdded ` {i \<in> set (pre @ chunk). Skylink i \<noteq> []}"
  from ne have neB: "?B \<noteq> {}" by auto
  have finB: "finite ?B" and finA: "finite ?A" by simp_all
  have sub: "?B \<subseteq> ?A" by auto
  from srt have ord: "\<forall>a\<in>set pre. \<forall>b\<in>set chunk. TimestampAdded a \<le> TimestampAdded b"
    by (auto simp: sorted_append)
  have "Max ?A = Max ?B"
  proof (rule Max_eqI [OF finA])
    show "Max ?B \<in> ?A" using Max_in [OF finB neB] sub by blast
  next
    fix y assume "y \<in> ?A"
    then obtain i where i: "i \<in> set (pre @ chunk)" "Skylink i \<noteq> []" "y = TimestampAdded i" by auto
    show "y \<le> Max ?B"
    proof (cases "i \<in> set chunk")
      case True
      with i have "y \<in> ?B" by auto
      then show ?thesis by (simp add: finB)
    next
      case False
      with i have "i \<in> set pre" by simp
      moreover from Max_in [OF finB neB] obtain b where "b \<in> set chunk" "Max ?B = TimestampAdded b"
        by auto
      ultimately show ?thesis using ord i by auto
    qed
  qed
  then show ?thesis by simp
qed

section \<open>The whole sweep\<close>


lemma SweepAndBlock_pending:
  assumes "db_SkylinksToBlock w = (xs, None)"
  shows "SweepAndBlock srt now w =
     (case for_chunks (srt xs) (log (Trace_WillBlockAll xs) w) of
        (w1, Some r) \<Rightarrow> (w1, r)
      | (w1, None) \<Rightarrow>
          (case SetLatestBlockTimestamp now w1 of
             (w2, err2) \<Rightarrow>
               (if is_fatal err2 then
                  (case err2 of
                     None \<Rightarrow> (w2, None)
                   | Some e \<Rightarrow> (log (Trace_FailedToUpdateTimestamp e) w2, err2))
                else (w2, None))))"
  using assms by (simp add: SweepAndBlock_def Contains_ErrNoDocumentsFound_def)

lemma SweepAndBlock_pending_fields:
  assumes p: "db_SkylinksToBlock w = (xs, None)"
    and f: "for_chunks (srt xs) (log (Trace_WillBlockAll xs) w) = (w1, r)"
  shows "requests (fst (SweepAndBlock srt now w)) = requests w1"
    and "warned (fst (SweepAndBlock srt now w)) = warned w1"
    and "r \<noteq> None \<Longrightarrow> ts_writes (fst (SweepAndBlock srt now w)) = ts_writes w1"
    and "r \<noteq> None \<Longrightarrow> checkpoint (fst (SweepAndBlock srt now w)) = checkpoint w1"
    and "r \<noteq> None \<Longrightarrow> snd (SweepAndBlock srt now w) = the r"
  using f
  by (auto simp: SweepAndBlock_pending [OF p] SetLatestBlockTimestamp_eq log_def warned_def
      empty_warnings_append split: option.splits)

text \<open>
  Claim C8. In a sweep over the pending records, sorted: no batch submitted holds the
  empty identifier; the identifiers submitted are, in order, those of the records with a
  non-empty skylink among the first n records, and the records warned about are the ones
  with an empty skylink among the first m, with n at most m; and n is the number of all
  records when the context is never done and no submission or checkpoint write is fatal.
  The code keeps no count of blocked or failed items.
\<close>

theorem empty_skylinks_never_submitted:
  assumes "db_SkylinksToBlock w = (xs, None)"
  shows "\<exists>bs n m. requests (fst (SweepAndBlock srt now w)) = requests w @ bs \<and>
           (\<forall>b\<in>set bs. [] \<notin> set b) \<and> n \<le> m \<and> m \<le> length (srt xs) \<and>
           concat bs = map Skylink (filter (\<lambda>sl. Skylink sl \<noteq> []) (take n (srt xs))) \<and>
           warned (fst (SweepAndBlock srt now w))
             = warned w @ filter (\<lambda>sl. Skylink sl = []) (take m (srt xs)) \<and>
           ((\<forall>k. \<not> ctx_done w k) \<and>
            (\<forall>h b. \<not> is_fatal (AddContext_opt (skyd_answer w h b) ''block skylinks failed'')) \<and>
            (\<forall>h t. \<not> is_fatal (db_answer w h t)) \<longrightarrow> n = length (srt xs))"
proof -
  let ?w0 = "log (Trace_WillBlockAll xs) w"
  obtain w1 r where f: "for_chunks (srt xs) ?w0 = (w1, r)"
    by (cases "for_chunks (srt xs) ?w0")
  from for_chunks_batches [OF f] obtain bs n m where
    b: "requests w1 = requests ?w0 @ bs" "\<forall>b\<in>set bs. length b \<le> skylinksChunk \<and> [] \<notin> set b"
    "n \<le> m" "m \<le> length (srt xs)" "concat bs = block_of (take n (srt xs))"
    "warned w1 = warned ?w0 @ filter (\<lambda>sl. Skylink sl = []) (take m (srt xs))"
    "r = None \<longrightarrow> n = length (srt xs)"
    by blast
  have w0: "requests ?w0 = requests w" "warned ?w0 = warned w" "env ?w0 = env w"
    by (simp_all add: log_frame warned_log)
  have "(\<forall>k. \<not> ctx_done w k) \<and>
        (\<forall>h b. \<not> is_fatal (AddContext_opt (skyd_answer w h b) ''block skylinks failed'')) \<and>
        (\<forall>h t. \<not> is_fatal (db_answer w h t)) \<longrightarrow> n = length (srt xs)"
  proof
    assume a: "(\<forall>k. \<not> ctx_done w k) \<and>
        (\<forall>h b. \<not> is_fatal (AddContext_opt (skyd_answer w h b) ''block skylinks failed'')) \<and>
        (\<forall>h t. \<not> is_fatal (db_answer w h t))"
    from env_eqD [OF w0(3)] a have "snd (for_chunks (srt xs) ?w0) = None"
      by (intro for_chunks_completes) simp_all
    with f b(7) show "n = length (srt xs)" by simp
  qed
  moreover have "requests (fst (SweepAndBlock srt now w)) = requests w @ bs"
    using SweepAndBlock_pending_fields(1) [where srt = srt, OF assms f] b(1) w0 by simp
  moreover have "warned (fst (SweepAndBlock srt now w))
      = warned w @ filter (\<lambda>sl. Skylink sl = []) (take m (srt xs))"
    using SweepAndBlock_pending_fields(2) [where srt = srt, OF assms f] b(6) w0 by simp
  moreover have "concat bs = map Skylink (filter (\<lambda>sl. Skylink sl \<noteq> []) (take n (srt xs)))"
    using b(5) by (simp add: block_of_def)
  ultimately show ?thesis using b(2,3,4) by blast
qed

theorem empty_skylinks_never_submitted_witness:
  "requests (fst (SweepAndBlock (sort_key TimestampAdded) 99
       (pending [item ''b'' 3, item [] 2, item ''a'' 1]))) = [[''a'', ''b'']] \<and>
   warned (fst (SweepAndBlock (sort_key TimestampAdded) 99
       (pending [item ''b'' 3, item [] 2, item ''a'' 1]))) = [item [] 2]"
proof -
  let ?xs = "[item ''b'' 3, item [] 2, item ''a'' 1]"
  let ?w = "pending ?xs"
  have p: "db_SkylinksToBlock ?w = (?xs, None)"
    by (simp add: pending_def calm_def)
  have s: "sort_key TimestampAdded ?xs = [item ''a'' 1, item [] 2, item ''b'' 3]"
    by (simp add: item_def)
  have nd: "(\<forall>k. \<not> ctx_done ?w k) \<and>
      (\<forall>h b. \<not> is_fatal (AddContext_opt (skyd_answer ?w h b) ''block skylinks failed'')) \<and>
      (\<forall>h t. \<not> is_fatal (db_answer ?w h t))"
    by (simp add: pending_def calm_def AddContext_opt_def is_fatal_None)
  have r0: "requests ?w = []" "warned ?w = []"
    by (simp_all add: pending_def calm_def warned_def)
  from empty_skylinks_never_submitted [OF p, of "sort_key TimestampAdded" 99] nd
  obtain bs m where
    "requests (fst (SweepAndBlock (sort_key TimestampAdded) 99 ?w)) = requests ?w @ bs"
    "length (sort_key TimestampAdded ?xs) \<le> m" "m \<le> length (sort_key TimestampAdded ?xs)"
    "concat bs = map Skylink (filter (\<lambda>sl. Skylink sl \<noteq> [])
        (take (length (sort_key TimestampAdded ?xs)) (sort_key TimestampAdded ?xs)))"
    "warned (fst (SweepAndBlock (sort_key TimestampAdded) 99 ?w))
       = warned ?w @ filter (\<lambda>sl. Skylink sl = []) (take m (sort_key TimestampAdded ?xs))"
    by blast
  then have "warned (fst (SweepAndBlock (sort_key TimestampAdded) 99 ?w)) = [item [] 2]"
    using r0 by (simp add: s) (simp add: item_def)
  moreover have "requests (fst (SweepAndBlock (sort_key TimestampAdded) 99 ?w)) = [[''a'', ''b'']]"
    by code_simp
  ultimately show ?thesis by simp
qed

section \<open>Errors that do not stop the sweep\<close>


lemma strings_Contains_sublist: "strings_Contains s substr = sublist substr s"
  by (induction s) (simp_all add: sublist_Cons_right)

lemma sublist_bracketed:
  assumes "sublist n (CHR ''['' # x)" and "n \<noteq> []" and "hd n \<noteq> CHR ''[''"
  shows "sublist n x"
proof -
  from assms(2,3) have "\<not> prefix n (CHR ''['' # x)"
    by (cases n) auto
  with assms(1) show ?thesis by (simp add: sublist_Cons_right)
qed

lemma sublist_in_context:
  assumes "sublist n m"
  shows "sublist n (ps @ m @ ss)"
proof -
  from assms obtain a b where "m = a @ n @ b" by (auto simp: sublist_def)
  then have "ps @ m @ ss = (ps @ a) @ n @ (b @ ss)" by simp
  then show ?thesis unfolding sublist_def by blast
qed

lemma join_msgs_Cons: "ms \<noteq> [] \<Longrightarrow> join_msgs (m # ms) = m @ ''; '' @ join_msgs ms"
  by (cases ms) simp_all

lemma AddContext_keeps_no_entries_updated:
  assumes "strings_Contains (Error_msg e) no_entries_updated"
  shows "strings_Contains (Error_msg (AddContext e s)) no_entries_updated"
proof (cases e)
  case (Plain c)
  with assms have "sublist no_entries_updated (fst c)" by (simp add: strings_Contains_sublist)
  then have "sublist no_entries_updated ((''['' @ s @ ''; '') @ fst c @ '']'')"
    by (rule sublist_in_context)
  with Plain show ?thesis by (simp add: AddContext_def strings_Contains_sublist)
next
  case (ErrSet cs)
  let ?j = "join_msgs (map fst cs)"
  from assms ErrSet have a: "sublist no_entries_updated (CHR ''['' # ?j @ '']'')"
    by (simp add: strings_Contains_sublist)
  have "sublist no_entries_updated (?j @ '']'')"
    by (rule sublist_bracketed [OF a]) (simp_all add: no_entries_updated_def)
  then have b: "sublist no_entries_updated ((''['' @ s @ ''; '') @ (?j @ '']'') @ [])"
    by (rule sublist_in_context)
  have "cs \<noteq> []"
  proof
    assume "cs = []"
    with a show False by (simp add: no_entries_updated_def sublist_Cons_right)
  qed
  with ErrSet b show ?thesis
    by (simp add: AddContext_def strings_Contains_sublist join_msgs_Cons)
qed

lemma not_fatal_AddContext:
  "\<not> is_fatal err \<Longrightarrow> \<not> is_fatal (AddContext_opt err s)"
  by (cases err) (simp_all add: is_fatal_def AddContext_opt_def AddContext_keeps_no_entries_updated)

lemma sweep_without_fatal_answer:
  assumes p: "db_SkylinksToBlock w = (xs, None)"
    and nd: "\<forall>n. \<not> ctx_done w n"
    and sk: "\<forall>h b. \<not> is_fatal (skyd_answer w h b)"
    and db: "\<forall>h t. \<not> is_fatal (db_answer w h t)"
  shows "snd (SweepAndBlock srt now w) = None"
proof -
  let ?w0 = "log (Trace_WillBlockAll xs) w"
  obtain w1 r where f: "for_chunks (srt xs) ?w0 = (w1, r)"
    by (cases "for_chunks (srt xs) ?w0")
  have e0: "env ?w0 = env w" by (simp add: log_frame)
  from nd sk db env_eqD [OF e0] have "snd (for_chunks (srt xs) ?w0) = None"
    by (intro for_chunks_completes) (simp_all add: not_fatal_AddContext)
  with f have r: "r = None" by simp
  from for_chunks_env [OF f] e0 have "db_answer w1 = db_answer w" by (simp add: env_def)
  with db have "\<not> is_fatal (db_answer w1 (ts_writes w1) now)" by simp
  with f r show ?thesis
    by (simp add: SweepAndBlock_pending [OF p] SetLatestBlockTimestamp_eq)
qed

lemma sort_key_sorts_by_time: "sorts_by_time (sort_key TimestampAdded)"
  by (simp add: sorts_by_time_def)

lemma sorts_by_timeD:
  "sorts_by_time srt \<Longrightarrow>
   sorted (map TimestampAdded (srt xs)) \<and> set (srt xs) = set xs \<and> length (srt xs) = length xs"
  by (metis sorts_by_time_def mset_eq_setD size_mset)

lemma sorted_many: "sorted (map TimestampAdded (many n @ [item s (int (Suc n))]))"
proof -
  have "map TimestampAdded (many n @ [item s (int (Suc n))]) = map int [1..<Suc (Suc n)]"
    by (simp add: many_def item_def comp_def)
  moreover have "sorted (map int [1..<Suc (Suc n)])"
    by (simp only: sorted_map) (rule sorted_wrt_mono_rel [OF _ sorted_upt], simp)
  ultimately show ?thesis by simp
qed

section \<open>The claims about the sweep\<close>

text \<open>
  Claim C1, as the code has it. \<open>blockSkylinks\<close> does not bisect: whatever list it is
  given, and whatever the Blocking Authority answers, it makes one submission, of the
  whole list in its order, and returns the answer of the Authority, a rejection with the
  context \<open>block skylinks failed\<close> added. It keeps no count of blocked or failed items.
\<close>
theorem blockSkylinks_submits_once:
  "requests (fst (blockSkylinks sls w)) = requests w @ [sls] \<and>
   snd (blockSkylinks sls w)
     = AddContext_opt (skyd_answer w (requests w) sls) ''block skylinks failed''"
  by (simp add: blockSkylinks_requests blockSkylinks_result)

text \<open>
  Against claim C1 as stated: four pending records, the third rejected by the Authority. The
  dispatcher of the specification isolates it in five submissions and counts three blocked
  and one failed; the sweep submits the four identifiers once and returns the rejection.
\<close>
theorem no_bisection_counterexample:
  "spec_Dispatch (\<lambda>b. rejects_throwerror [] b = None) four
     = (3, 1, Some 4,
        [[''skylink_0'', ''skylink_1'', ''throwerror'', ''skylink_2''],
         [''skylink_0'', ''skylink_1''], [''throwerror'', ''skylink_2''],
         [''throwerror''], [''skylink_2'']]) \<and>
   requests (fst (SweepAndBlock (sort_key TimestampAdded) 99 (mock_skyd (pending four))))
     = [[''skylink_0'', ''skylink_1'', ''throwerror'', ''skylink_2'']] \<and>
   snd (SweepAndBlock (sort_key TimestampAdded) 99 (mock_skyd (pending four)))
     = Some (ErrSet [(''failed to block skylinks list'', False), (''block skylinks failed'', False),
                     (''unable to update blocklist'', False)])"
  by code_simp

text \<open>
  Claim C2, as the code has it. The unit is the chunk, not the item. Take a sweep over the
  pending records, sorted, and a chunk k such that, as the sweep really runs (each
  submission answered after the submissions before it, each checkpoint write after the
  writes before it), the context is not done while the chunks up to k are read, the
  submissions of the chunks before k are accepted or rejected with
  \<open>no entries updated\<close>, their checkpoint writes succeed, and the submission of chunk k
  is rejected with another error. Then the sweep returns that error, with its two
  contexts, after the k + 1 submissions and the k checkpoint writes of those chunks. If k
  is 0 the store keeps the checkpoint it had. Otherwise the checkpoint stored is the one
  written for chunk k - 1; when that chunk holds a record with a non-empty skylink and no
  record was added before the zero time, it is the newest time among the records with a
  non-empty skylink in the chunks before k, and no record of chunk k or of a later chunk
  is older than it.
\<close>

theorem checkpoint_after_rejected_chunk:
  assumes p: "db_SkylinksToBlock w = (xs, None)"
    and s: "sorts_by_time srt"
    and nd: "\<forall>n. polls w \<le> n \<and> n < polls w + length (take (Suc k * skylinksChunk) (srt xs))
                 \<longrightarrow> \<not> ctx_done w n"
    and wr: "\<forall>j<k. db_answer w (ts_writes w @ written_before j (srt xs))
                      (latest_of (chunk_at j (srt xs))) = None"
    and acc: "\<forall>j<k. \<not> is_fatal (AddContext_opt
                 (skyd_answer w (requests w @ submitted_before j (srt xs))
                    (block_of (chunk_at j (srt xs))))
                 ''block skylinks failed'')"
    and rej: "is_fatal (AddContext_opt
                 (skyd_answer w (requests w @ submitted_before k (srt xs))
                    (block_of (chunk_at k (srt xs))))
                 ''block skylinks failed'')"
    and kC: "k * skylinksChunk < length xs"
  shows "snd (SweepAndBlock srt now w)
           = AddContext_opt (AddContext_opt
               (skyd_answer w (requests w @ submitted_before k (srt xs))
                  (block_of (chunk_at k (srt xs))))
               ''block skylinks failed'') ''failed to block skylinks list'' \<and>
         snd (SweepAndBlock srt now w) \<noteq> None \<and>
         requests (fst (SweepAndBlock srt now w)) = requests w @ submitted_before (Suc k) (srt xs) \<and>
         ts_writes (fst (SweepAndBlock srt now w)) = ts_writes w @ written_before k (srt xs) \<and>
         (k = 0 \<longrightarrow> checkpoint (fst (SweepAndBlock srt now w)) = checkpoint w) \<and>
         (0 < k \<longrightarrow>
            checkpoint (fst (SweepAndBlock srt now w)) = latest_of (chunk_at (k - 1) (srt xs))) \<and>
         (0 < k \<and> (\<exists>i\<in>set (chunk_at (k - 1) (srt xs)). Skylink i \<noteq> []) \<and>
          (\<forall>i\<in>set xs. 0 \<le> TimestampAdded i) \<longrightarrow>
            checkpoint (fst (SweepAndBlock srt now w))
              = Max (TimestampAdded ` {i \<in> set (take (k * skylinksChunk) (srt xs)). Skylink i \<noteq> []}) \<and>
            (\<forall>i\<in>set (drop (k * skylinksChunk) (srt xs)).
               checkpoint (fst (SweepAndBlock srt now w)) \<le> TimestampAdded i))"
proof -
  let ?C = skylinksChunk
  let ?ys = "srt xs"
  let ?w0 = "log (Trace_WillBlockAll xs) w"
  let ?S = "SweepAndBlock srt now w"
  let ?ans = "skyd_answer w (requests w @ submitted_before k ?ys) (block_of (chunk_at k ?ys))"
  let ?err = "AddContext_opt (AddContext_opt ?ans ''block skylinks failed'')
                ''failed to block skylinks list''"
  note sd = sorts_by_timeD [OF s, of xs]
  have w0: "requests ?w0 = requests w" "ts_writes ?w0 = ts_writes w"
    "checkpoint ?w0 = checkpoint w" "polls ?w0 = polls w" "env ?w0 = env w"
    by (simp_all add: log_frame)
  note e = env_eqD [OF w0(5)]
  have nd0: "\<forall>n. polls ?w0 \<le> n \<and> n < polls ?w0 + length (take (Suc k * ?C) ?ys)
               \<longrightarrow> \<not> ctx_done ?w0 n"
    using nd e w0(4) by (simp only:)
  have wr0: "\<forall>j<k. db_answer ?w0 (ts_writes ?w0 @ written_before j ?ys)
               (latest_of (chunk_at j ?ys)) = None"
    using wr e w0(2) by (simp only:)
  have acc0: "\<forall>j<k. \<not> is_fatal (AddContext_opt
               (skyd_answer ?w0 (requests ?w0 @ submitted_before j ?ys) (block_of (chunk_at j ?ys)))
               ''block skylinks failed'')"
    using acc e w0(1) by (simp only:)
  have rej0: "is_fatal (AddContext_opt
               (skyd_answer ?w0 (requests ?w0 @ submitted_before k ?ys) (block_of (chunk_at k ?ys)))
               ''block skylinks failed'')"
    using rej e w0(1) by (simp only:)
  have kC0: "k * ?C < length ?ys" using kC sd by simp
  from for_chunks_rejected_at_chunk [OF nd0 wr0 acc0 rej0 kC0] obtain w' where
    f0: "for_chunks ?ys ?w0 =
           (w', Some (AddContext_opt (AddContext_opt
              (skyd_answer ?w0 (requests ?w0 @ submitted_before k ?ys) (block_of (chunk_at k ?ys)))
              ''block skylinks failed'') ''failed to block skylinks list''))"
    and rq0: "requests w' = requests ?w0 @ submitted_before (Suc k) ?ys"
    and tw0: "ts_writes w' = ts_writes ?w0 @ written_before k ?ys"
    and cp0: "checkpoint w' = (if k = 0 then checkpoint ?w0 else latest_of (chunk_at (k - 1) ?ys))"
    by blast
  from f0 e w0(1) have f: "for_chunks ?ys ?w0 = (w', Some ?err)" by (simp only:)
  from rq0 w0(1) have rq: "requests w' = requests w @ submitted_before (Suc k) ?ys" by (simp only:)
  from tw0 w0(2) have tw: "ts_writes w' = ts_writes w @ written_before k ?ys" by (simp only:)
  from cp0 w0(3) have cp: "checkpoint w' = (if k = 0 then checkpoint w else latest_of (chunk_at (k - 1) ?ys))"
    by (simp only:)
  note sf = SweepAndBlock_pending_fields [where srt = srt and now = now, OF p f]
  have r1: "snd ?S = ?err" using sf(5) by simp
  from rej obtain e1 where "?ans = Some e1"
    by (cases ?ans) (simp_all add: AddContext_opt_def is_fatal_None)
  then have "?err \<noteq> None" by (simp add: AddContext_opt_def)
  with r1 have r2: "snd ?S \<noteq> None" by simp
  have r3: "requests (fst ?S) = requests w @ submitted_before (Suc k) ?ys"
    using sf(1) rq by simp
  have r4: "ts_writes (fst ?S) = ts_writes w @ written_before k ?ys"
    using sf(3) tw by simp
  have r5: "k = 0 \<longrightarrow> checkpoint (fst ?S) = checkpoint w"
    using sf(4) cp by simp
  have r6: "0 < k \<longrightarrow> checkpoint (fst ?S) = latest_of (chunk_at (k - 1) ?ys)"
    using sf(4) cp by simp
  have r7: "checkpoint (fst ?S) = Max (TimestampAdded ` {i \<in> set (take (k * ?C) ?ys). Skylink i \<noteq> []}) \<and>
            (\<forall>i\<in>set (drop (k * ?C) ?ys). checkpoint (fst ?S) \<le> TimestampAdded i)"
    if k: "0 < k" and ne': "\<exists>i\<in>set (chunk_at (k - 1) ?ys). Skylink i \<noteq> []"
      and pos: "\<forall>i\<in>set xs. 0 \<le> TimestampAdded i"
  proof -
    let ?last = "chunk_at (k - 1) ?ys"
    let ?pre = "take ((k - 1) * ?C) ?ys"
    let ?M = "Max (TimestampAdded ` {i \<in> set (take (k * ?C) ?ys). Skylink i \<noteq> []})"
    from k have kk: "(k - 1) * ?C + ?C = k * ?C"
      by (metis Suc_pred' mult_Suc add.commute)
    have split: "?pre @ ?last = take (k * ?C) ?ys"
      using take_add [of "(k - 1) * ?C" ?C ?ys] kk by (simp add: chunk_at_def)
    from k r6 have c1: "checkpoint (fst ?S) = latest_of ?last" by simp
    have "set ?last \<subseteq> set xs"
      using sd unfolding chunk_at_def by (metis set_drop_subset set_take_subset subset_trans)
    with pos have pos': "\<forall>i\<in>set ?last. 0 \<le> TimestampAdded i" by blast
    have "sorted (map TimestampAdded (take (k * ?C) ?ys))"
      using sd by (simp add: take_map [symmetric] sorted_wrt_take)
    with split have "sorted (map TimestampAdded (?pre @ ?last))" by simp
    from Max_last_chunk [OF this ne']
    have "Max (TimestampAdded ` {i \<in> set ?last. Skylink i \<noteq> []}) = ?M"
      by (simp only: split)
    with latest_of_Max [OF ne' pos'] c1
    have c2: "checkpoint (fst ?S) = ?M" by (simp only:)
    have "set ?last \<subseteq> set (take (k * ?C) ?ys)"
      using split by (metis Un_upper2 set_append)
    with ne' have "\<exists>i\<in>set (take (k * ?C) ?ys). Skylink i \<noteq> []" by blast
    then have nem: "TimestampAdded ` {i \<in> set (take (k * ?C) ?ys). Skylink i \<noteq> []} \<noteq> {}"
      by blast
    have fin: "finite (TimestampAdded ` {i \<in> set (take (k * ?C) ?ys). Skylink i \<noteq> []})"
      by simp
    from Max_in [OF fin nem] obtain a where
      a: "a \<in> set (take (k * ?C) ?ys)" "?M = TimestampAdded a" by auto
    have "sorted (map TimestampAdded (take (k * ?C) ?ys @ drop (k * ?C) ?ys))"
      using sd by simp
    then have "\<forall>x\<in>set (take (k * ?C) ?ys). \<forall>y\<in>set (drop (k * ?C) ?ys).
        TimestampAdded x \<le> TimestampAdded y"
      unfolding map_append sorted_append by auto
    with a c2 have c3: "\<forall>i\<in>set (drop (k * ?C) ?ys). checkpoint (fst ?S) \<le> TimestampAdded i"
      by simp
    from c2 c3 show ?thesis by blast
  qed
  from r1 r2 r3 r4 r5 r6 r7 show ?thesis by blast
qed

theorem checkpoint_after_rejected_chunk_witness:
  "snd (SweepAndBlock (sort_key TimestampAdded) 999
       (outage_at 1 (pending (many 100 @ [item ''skylink'' 101]))))
     = Some (ErrSet [(''failed to block skylinks list'', False), (''block skylinks failed'', False),
                     (''skyd unreachable'', False)]) \<and>
   map length (requests (fst (SweepAndBlock (sort_key TimestampAdded) 999
       (outage_at 1 (pending (many 100 @ [item ''skylink'' 101])))))) = [100, 1] \<and>
   ts_writes (fst (SweepAndBlock (sort_key TimestampAdded) 999
       (outage_at 1 (pending (many 100 @ [item ''skylink'' 101]))))) = [100] \<and>
   checkpoint (fst (SweepAndBlock (sort_key TimestampAdded) 999
       (outage_at 1 (pending (many 100 @ [item ''skylink'' 101]))))) = 100"
proof -
  let ?xs = "many 100 @ [item ''skylink'' 101]"
  let ?w = "outage_at 1 (pending ?xs)"
  let ?srt = "sort_key TimestampAdded"
  let ?S = "SweepAndBlock ?srt 999 ?w"
  have len: "length (many 100) = 100" by (simp add: many_def)
  have "sorted (map TimestampAdded (many 100 @ [item ''skylink'' (int (Suc 100))]))"
    by (rule sorted_many)
  then have ys: "?srt ?xs = ?xs" by (simp add: sort_key_id_if_sorted)
  have c0: "chunk_at 0 ?xs = many 100"
    using len by (simp add: chunk_at_def skylinksChunk_def)
  have c1: "chunk_at 1 ?xs = [item ''skylink'' 101]"
    using len by (simp add: chunk_at_def skylinksChunk_def)
  have s0: "submitted_before 0 ?xs = []" and s1: "submitted_before 1 ?xs = [block_of (many 100)]"
    and s2: "submitted_before (Suc 1) ?xs = [block_of (many 100), block_of [item ''skylink'' 101]]"
    and t1: "written_before 1 ?xs = [latest_of (many 100)]"
    using c0 c1 by (simp_all add: submitted_before_def written_before_def)
  have w: "db_SkylinksToBlock ?w = (?xs, None)" "requests ?w = []" "ts_writes ?w = []"
    "ctx_done ?w = (\<lambda>n. False)" "db_answer ?w = (\<lambda>h t. None)"
    "skyd_answer ?w = (\<lambda>h b. if length h = 1 then Some (New ''skyd unreachable'') else None)"
    by (simp_all add: outage_at_def pending_def calm_def)
  have nd: "\<forall>n. polls ?w \<le> n \<and> n < polls ?w + length (take (Suc 1 * skylinksChunk) (?srt ?xs))
              \<longrightarrow> \<not> ctx_done ?w n"
    unfolding w by simp
  have wr: "\<forall>j<1. db_answer ?w (ts_writes ?w @ written_before j (?srt ?xs))
              (latest_of (chunk_at j (?srt ?xs))) = None"
    unfolding w by simp
  have acc: "\<forall>j<1. \<not> is_fatal (AddContext_opt
      (skyd_answer ?w (requests ?w @ submitted_before j (?srt ?xs)) (block_of (chunk_at j (?srt ?xs))))
      ''block skylinks failed'')"
    unfolding w ys by (simp add: submitted_before_def AddContext_opt_def is_fatal_None)
  have fatal: "is_fatal (Some (AddContext (New ''skyd unreachable'') ''block skylinks failed''))"
    by code_simp
  have rej: "is_fatal (AddContext_opt
      (skyd_answer ?w (requests ?w @ submitted_before 1 (?srt ?xs)) (block_of (chunk_at 1 (?srt ?xs))))
      ''block skylinks failed'')"
    using fatal unfolding w ys s1 by (simp add: AddContext_opt_def)
  have kC: "1 * skylinksChunk < length ?xs"
    using len by (simp add: skylinksChunk_def)
  have l: "latest_of (many 100) = 100"
    by code_simp
  have b0: "length (block_of (many 100)) = 100"
    by (simp add: block_of_def many_def item_def)
  have e: "AddContext_opt (AddContext_opt (Some (New ''skyd unreachable'')) ''block skylinks failed'')
             ''failed to block skylinks list''
           = Some (ErrSet [(''failed to block skylinks list'', False), (''block skylinks failed'', False),
                     (''skyd unreachable'', False)])"
    by (simp add: AddContext_opt_def AddContext_def New_def)
  have b1: "length (block_of [item ''skylink'' 101]) = 1"
    by (simp add: block_of_def item_def)
  note th = checkpoint_after_rejected_chunk [OF w(1) sort_key_sorts_by_time nd wr acc rej kC, of 999]
  from th have A: "snd ?S = AddContext_opt (AddContext_opt
               (skyd_answer ?w (requests ?w @ submitted_before 1 (?srt ?xs))
                  (block_of (chunk_at 1 (?srt ?xs))))
               ''block skylinks failed'') ''failed to block skylinks list''"
    by blast
  from th have B: "requests (fst ?S) = requests ?w @ submitted_before (Suc 1) (?srt ?xs)"
    by blast
  from th have C: "ts_writes (fst ?S) = ts_writes ?w @ written_before 1 (?srt ?xs)"
    by blast
  from th have D: "checkpoint (fst ?S) = latest_of (chunk_at 0 (?srt ?xs))"
    by simp
  from A have "snd ?S = AddContext_opt (AddContext_opt (Some (New ''skyd unreachable''))
                 ''block skylinks failed'') ''failed to block skylinks list''"
    unfolding w ys s1 by simp
  with e have A': "snd ?S = Some (ErrSet [(''failed to block skylinks list'', False),
                 (''block skylinks failed'', False), (''skyd unreachable'', False)])"
    by (simp only:)
  from B have "requests (fst ?S) = [block_of (many 100), block_of [item ''skylink'' 101]]"
    by (simp only: w ys s2 append_Nil)
  then have B': "map length (requests (fst ?S)) = [100, 1]"
    by (simp add: b0 b1)
  from C have C': "ts_writes (fst ?S) = [100]"
    by (simp only: w ys t1 l append_Nil)
  from D have D': "checkpoint (fst ?S) = 100"
    by (simp only: ys c0 l)
  from A' B' C' D' show ?thesis by blast
qed

text \<open>
  Against claim C2 as stated: three pending records, the last rejected by the Authority. The
  dispatcher of the specification submits the first two on their own and returns the time
  of the second as the checkpoint; the sweep makes one submission, which is rejected, and
  writes no checkpoint, so that the store keeps what it had.
\<close>
theorem no_isolation_counterexample:
  "fst (snd (snd (spec_Dispatch (\<lambda>b. rejects_throwerror [] b = None) three))) = Some 2 \<and>
   requests (fst (SweepAndBlock (sort_key TimestampAdded) 99 (mock_skyd (pending three))))
     = [[''skylink_0'', ''skylink_1'', ''throwerror'']] \<and>
   ts_writes (fst (SweepAndBlock (sort_key TimestampAdded) 99 (mock_skyd (pending three)))) = [] \<and>
   checkpoint (mock_skyd (pending three)) = 0 \<and>
   checkpoint (fst (SweepAndBlock (sort_key TimestampAdded) 99 (mock_skyd (pending three)))) = 0"
  by code_simp

text \<open>
  Claim C5. A chunk whose records all have an empty skylink leaves \<open>block\<close> empty, and
  the sweep submits it all the same: with one such record pending, the Authority
  receives the empty batch, and the zero time is written as the checkpoint before the
  current time is.
\<close>
theorem empty_batch_submitted:
  "requests (fst (SweepAndBlock (sort_key TimestampAdded) 99 (pending [item [] 5]))) = [[]] \<and>
   ts_writes (fst (SweepAndBlock (sort_key TimestampAdded) 99 (pending [item [] 5]))) = [0, 99]"
  by code_simp

text \<open>
  Claim C7, as the code has it. When the store reports nothing pending, the sweep writes the
  current time as the checkpoint and returns the result of that write. When the write
  succeeds, the checkpoint is the current time, nothing is submitted, the sweep returns
  no error, and the scheduler resets the consecutive-error counter to 0 and waits
  \<open>sleepBetweenScans\<close>.
\<close>
theorem nowork_advances_checkpoint:
  assumes "Contains_ErrNoDocumentsFound (snd (db_SkylinksToBlock w))"
    and "db_answer w (ts_writes w) now = None"
  shows "checkpoint (fst (SweepAndBlock srt now w)) = now \<and>
         ts_writes (fst (SweepAndBlock srt now w)) = ts_writes w @ [now] \<and>
         requests (fst (SweepAndBlock srt now w)) = requests w \<and>
         snd (SweepAndBlock srt now w) = None \<and>
         numSubsequentErrs (sched_step rel (snd (SweepAndBlock srt now w)) st) = 0 \<and>
         sleepLength (sched_step rel (snd (SweepAndBlock srt now w)) st) = sleepBetweenScans rel"
  using assms
  by (cases "db_SkylinksToBlock w")
    (simp add: SweepAndBlock_def SetLatestBlockTimestamp_eq sched_step_def
      Contains_ErrNoDocumentsFound_def)

theorem nowork_advances_checkpoint_witness:
  "Contains_ErrNoDocumentsFound (snd (db_SkylinksToBlock nothing_pending)) \<and>
   checkpoint (fst (SweepAndBlock (sort_key TimestampAdded) 99 nothing_pending)) = 99 \<and>
   numSubsequentErrs (sched_step Standard
      (snd (SweepAndBlock (sort_key TimestampAdded) 99 nothing_pending))
      \<lparr>sleepLength = 30 * Second, numSubsequentErrs = 3\<rparr>) = 0"
proof -
  have a: "Contains_ErrNoDocumentsFound (snd (db_SkylinksToBlock nothing_pending))"
    by (simp add: nothing_pending_def calm_def ErrNoDocumentsFound_def Contains_ErrNoDocumentsFound_def)
  have b: "db_answer nothing_pending (ts_writes nothing_pending) 99 = None"
    by (simp add: nothing_pending_def calm_def)
  from nowork_advances_checkpoint [OF a b, of "sort_key TimestampAdded" Standard
      "\<lparr>sleepLength = 30 * Second, numSubsequentErrs = 3\<rparr>"] a
  show ?thesis by blast
qed

text \<open>
  Against claim C7 as stated: nothing is pending and the store refuses the write. The sweep
  returns the error of the store, the checkpoint stays where it was, and the scheduler
  counts one more error.
\<close>
theorem nowork_write_failure_counterexample:
  "snd (SweepAndBlock (sort_key TimestampAdded) 99
          (store_fails (New ''connection refused'') nothing_pending))
     = Some (New ''connection refused'') \<and>
   checkpoint (fst (SweepAndBlock (sort_key TimestampAdded) 99
          (store_fails (New ''connection refused'') nothing_pending))) = 0 \<and>
   numSubsequentErrs (sched_step Standard
      (snd (SweepAndBlock (sort_key TimestampAdded) 99
          (store_fails (New ''connection refused'') nothing_pending))) sched_init) = 1"
  by code_simp

text \<open>
  Claim C10. With nothing pending, the sweep returns the result of the checkpoint write as
  it is: a write answered \<open>no entries updated\<close> makes the sweep report that error and
  the scheduler count it, while the same answer to the writes of a sweep with a record
  pending is passed over.
\<close>
theorem nowork_returns_no_entries_updated:
  "snd (SweepAndBlock (sort_key TimestampAdded) 99
          (store_fails (New ''no entries updated'') nothing_pending))
     = Some (New ''no entries updated'') \<and>
   numSubsequentErrs (sched_step Standard
      (snd (SweepAndBlock (sort_key TimestampAdded) 99
          (store_fails (New ''no entries updated'') nothing_pending))) sched_init) = 1 \<and>
   snd (SweepAndBlock (sort_key TimestampAdded) 99
          (store_fails (New ''no entries updated'') (pending [item ''skylink_0'' 1]))) = None"
  by code_simp

text \<open>
  Claim C3. A sweep that blocks its one pending record returns no error, and the loop body
  then resets the counter to 0 but sets the idle interval to \<open>sleepBetweenScans\<close>
  (one minute in the standard build), not to 0 as the comment on \<open>sleepLength\<close> in
  \<open>Start\<close> announces; shown on the first iteration of the standard build.
\<close>

theorem success_sleeps_between_scans:
  "requests (fst (SweepAndBlock (sort_key TimestampAdded) 99 (pending [item ''skylink_0'' 1])))
     = [[''skylink_0'']] \<and>
   snd (SweepAndBlock (sort_key TimestampAdded) 99 (pending [item ''skylink_0'' 1])) = None \<and>
   sched_step Standard
     (snd (SweepAndBlock (sort_key TimestampAdded) 99 (pending [item ''skylink_0'' 1]))) sched_init
     = \<lparr>sleepLength = 60000000000, numSubsequentErrs = 0\<rparr>"
  by code_simp

end
